theory Spec2Isabelle
  imports Complex_Main "HOL-Library.AList"
begin

section \<open>Exceptions\<close>

text \<open>
  The exceptions the program can raise.  \<open>NanResult\<close> is not an exception: it stands for
  a result made of nan, which has no real value (see \<open>calculate_margin_probabilities\<close>).
\<close>

datatype error =
  RuntimeError | KeyError | IndexError | AttributeError | ValueError | TypeError | NanResult

section \<open>Protein type labels (module-level helpers of tm\_models.py)\<close>

text \<open>
  The four protein types are the Python integers 0..3.  The helpers take any integer;
  every value other than the ones tested falls into the \<open>else\<close> branch.
\<close>

definition is_sp :: "int \<Rightarrow> int" where
  "is_sp type_id = (if type_id = 0 \<or> type_id = 3 then 0 else 1)"

definition is_tm :: "int \<Rightarrow> int" where
  "is_tm type_id = (if type_id = 0 \<or> type_id = 1 then 1 else 0)"

fun get_type_from_tm_sp :: "int \<times> int \<Rightarrow> int" where
  "get_type_from_tm_sp (tm, sp) =
     (if tm = 1 then (if sp = 1 then 1 else 0)
      else (if sp = 1 then 2 else 3))"

section \<open>The masked CRF built by the constructor of TMHMM3\<close>

text \<open>
  Tensors are nested lists.  Scores are floating-point numbers in the program; no
  arithmetic is done on them while masking (entries are copied or overwritten by a
  constant), so they are represented by reals.  A byte mask holds 0 or 1; an entry is
  overwritten where the mask is nonzero.
\<close>

record crf =
  start_transitions :: "real list"
  end_transitions :: "real list"
  transitions :: "real list list"

definition sentinel :: real where
  "sentinel = - 100000000"

definition num_tags_of :: "nat \<Rightarrow> bool \<Rightarrow> nat" where
  "num_tags_of num_labels use_hmm_model = num_labels + (if use_hmm_model then 2 * 40 else 0)"

definition ones :: "nat \<Rightarrow> nat \<Rightarrow> nat list list" where
  "ones r c = replicate r (replicate c 1)"

text \<open>
  The body of the inner loop: \<open>if (i, k) in self.allowed_transitions: mask[i][k] = 0\<close>.
  The allowed transitions are a collection of pairs of Python integers.
\<close>

definition mask_step :: "(int \<times> int) set \<Rightarrow> nat \<Rightarrow> nat \<Rightarrow> nat list list \<Rightarrow> nat list list" where
  "mask_step allowed i k m =
     (if (int i, int k) \<in> allowed then m[i := (m ! i)[k := 0]] else m)"

definition crf_transitions_mask :: "(int \<times> int) set \<Rightarrow> nat \<Rightarrow> nat list list" where
  "crf_transitions_mask allowed num_tags =
     fold (\<lambda>i m. fold (mask_step allowed i) [0..<num_tags] m) [0..<num_tags]
       (ones num_tags num_tags)"

text \<open>
  \<open>masked_fill_\<close> on a vector and on a matrix.  At every call site the mask has the
  shape of the tensor; any other shape is reported as an error (broadcasting is not
  modelled).
\<close>

definition fill_row :: "real list \<Rightarrow> nat list \<Rightarrow> real \<Rightarrow> real list" where
  "fill_row t msk v = map (\<lambda>(x, m). if m \<noteq> 0 then v else x) (zip t msk)"

definition masked_fill1 :: "real list \<Rightarrow> nat list \<Rightarrow> real \<Rightarrow> error + real list" where
  "masked_fill1 t msk v =
     (if length msk = length t then Inr (fill_row t msk v) else Inl RuntimeError)"

definition masked_fill2 :: "real list list \<Rightarrow> nat list list \<Rightarrow> real \<Rightarrow> error + real list list" where
  "masked_fill2 t msk v =
     (if list_all2 (\<lambda>r mr. length mr = length r) t msk
      then Inr (map (\<lambda>(r, mr). fill_row r mr v) (zip t msk))
      else Inl RuntimeError)"

definition generate_masked_crf_transitions ::
  "crf \<Rightarrow> nat list option \<times> nat list list option \<times> nat list option \<Rightarrow>
   error + real list \<times> real list \<times> real list list" where
  "generate_masked_crf_transitions crf_model transition_mask =
     (case transition_mask of (start_transitions_mask, transitions_mask, end_transition_mask) \<Rightarrow>
        (case (case start_transitions_mask of
                 None \<Rightarrow> Inr (start_transitions crf_model)
               | Some sm \<Rightarrow> masked_fill1 (start_transitions crf_model) sm sentinel) of
           Inl e \<Rightarrow> Inl e
         | Inr st \<Rightarrow>
        (case (case end_transition_mask of
                 None \<Rightarrow> Inr (end_transitions crf_model)
               | Some em \<Rightarrow> masked_fill1 (end_transitions crf_model) em sentinel) of
           Inl e \<Rightarrow> Inl e
         | Inr en \<Rightarrow>
        (case (case transitions_mask of
                 None \<Rightarrow> Inr (transitions crf_model)
               | Some tm \<Rightarrow> masked_fill2 (transitions crf_model) tm sentinel) of
           Inl e \<Rightarrow> Inl e
         | Inr tr \<Rightarrow> Inr (st, en, tr)))))"

text \<open>
  \<open>initialize_crf_parameters\<close>: a parameter given explicitly replaces the one of the
  CRF; a missing one is drawn afresh (the draw is the argument \<open>fresh\<close>).
\<close>

definition initialize_crf_parameters ::
  "crf \<Rightarrow> crf \<Rightarrow> real list option \<Rightarrow> real list option \<Rightarrow> real list list option \<Rightarrow> crf" where
  "initialize_crf_parameters fresh crfModel st en tr =
     \<lparr>start_transitions = (case st of None \<Rightarrow> start_transitions fresh | Some v \<Rightarrow> v),
      end_transitions = (case en of None \<Rightarrow> end_transitions fresh | Some v \<Rightarrow> v),
      transitions = (case tr of None \<Rightarrow> transitions fresh | Some v \<Rightarrow> v)\<rparr>"

text \<open>
  The CRF part of the constructor.  \<open>crf0\<close> is the CRF as \<open>CRF(num_tags)\<close> returns it: a
  start vector and an end vector of \<open>num_tags\<close> scores and a square matrix of
  transition scores, drawn at random by the CRF library.
\<close>

definition well_shaped :: "nat \<Rightarrow> crf \<Rightarrow> bool" where
  "well_shaped n c \<longleftrightarrow>
     length (start_transitions c) = n \<and> length (end_transitions c) = n \<and>
     length (transitions c) = n \<and> list_all (\<lambda>r. length r = n) (transitions c)"

definition init_crf :: "nat \<Rightarrow> bool \<Rightarrow> (int \<times> int) set \<Rightarrow> crf \<Rightarrow> error + crf" where
  "init_crf num_labels use_hmm_model allowed crf0 =
     (let num_tags = num_tags_of num_labels use_hmm_model;
          msk = crf_transitions_mask allowed num_tags
      in case generate_masked_crf_transitions crf0 (None, Some msk, None) of
           Inl e \<Rightarrow> Inl e
         | Inr (crf_start_transitions, crf_end_transitions, crf_transitions) \<Rightarrow>
             Inr (initialize_crf_parameters crf0 crf0 (Some crf_start_transitions)
                    (Some crf_end_transitions) (Some crf_transitions)))"

text \<open>A matrix of \<open>n\<close> rows of \<open>n\<close> entries each.\<close>

definition shp :: "nat \<Rightarrow> 'a list list \<Rightarrow> bool" where
  "shp n m \<longleftrightarrow> length m = n \<and> (\<forall>r<n. length (m ! r) = n)"

section \<open>From per-timestep batch sizes to the CRF mask\<close>

text \<open>
  \<open>batch_sizes_to_mask\<close> builds one row per entry of \<open>batch_sizes\<close>, made of that many
  ones followed by zeros up to the first entry, turns the rows into a byte tensor and
  transposes it (\<open>torch.t\<close>).  Python's \<open>[x] * n\<close> is empty for negative \<open>n\<close>.  Rows
  of different lengths make the tensor constructor raise; the empty list gives the
  empty tensor.
\<close>

definition batch_sizes_to_mask :: "int list \<Rightarrow> error + nat list list" where
  "batch_sizes_to_mask batch_sizes =
     (case map (\<lambda>batch_size. replicate (nat batch_size) (1::nat) @
                  replicate (nat (hd batch_sizes - batch_size)) 0) batch_sizes of
        [] \<Rightarrow> Inr []
      | r # rs \<Rightarrow> if \<forall>x \<in> set rs. length x = length r then Inr (transpose (r # rs))
                  else Inl ValueError)"

section \<open>Emissions of the network\<close>

text \<open>
  The last steps of \<open>_get_network_emissions\<close>, on the matrix \<open>emissions\<close> that the linear
  layer \<open>hidden_to_labels\<close> returns: one row of \<open>num_labels\<close> scores for every active
  (timestep, sequence) position of the packed batch.  With the augmented tag model,
  \<open>index_select\<close> takes columns 0 and 1 (and fails when the column does not exist),
  \<open>expand\<close> repeats each 40 times and \<open>cat\<close> appends both blocks to every row.
\<close>

definition hmm_emissions :: "nat \<Rightarrow> real list list \<Rightarrow> error + real list list" where
  "hmm_emissions num_labels emissions =
     (if num_labels < 2 then Inl IndexError
      else Inr (map (\<lambda>r. r @ replicate 40 (r ! 0) @ replicate 40 (r ! 1)) emissions))"

definition network_emissions :: "bool \<Rightarrow> nat \<Rightarrow> real list list \<Rightarrow> error + real list list" where
  "network_emissions use_hmm_model num_labels emissions =
     (if use_hmm_model then hmm_emissions num_labels emissions else Inr emissions)"

section \<open>Reduced marginal probabilities\<close>

text \<open>
  A tensor of three dimensions carries its shape (time, batch, classes) and its entries
  as nested lists.  The arithmetic of the program is floating-point arithmetic; sums
  and means are modelled over the reals, so rounding is not represented.
\<close>

record tensor3 =
  dims :: "nat \<times> nat \<times> nat"
  vals :: "real list list list"

definition wf3 :: "tensor3 \<Rightarrow> bool" where
  "wf3 x \<longleftrightarrow> (case dims x of (T, B, W) \<Rightarrow>
      length (vals x) = T \<and> (\<forall>m \<in> set (vals x). length m = B \<and> (\<forall>r \<in> set m. length r = W)))"

text \<open>
  The three assignments of the branch \<open>shape[2] is not 5\<close>, on one row of classes:
  class 0 becomes the sum of the slice 5:45, then class 1 the sum of the slice 45:85,
  then the row is cut to its first 5 entries.  Slices are clipped to the row.
\<close>

definition collapse_row :: "real list \<Rightarrow> real list" where
  "collapse_row r =
     (let r1 = r[0 := sum_list (take 40 (drop 5 r))];
          r2 = r1[1 := sum_list (take 40 (drop 45 r1))]
      in take 5 r2)"

text \<open>
  \<open>calculate_margin_probabilities\<close>, from the tensor \<open>marginal_probabilities\<close> that the
  softmax of the CRF's log-marginals returns (the network, the CRF library and the
  softmax are not part of the model; the message printed first is left out).
  Assigning to class 0 or 1, or reading class 2, of a tensor that has no such class
  raises \<open>IndexError\<close>.  The mean over an empty time axis is nan.
\<close>

definition calculate_margin_probabilities :: "tensor3 \<Rightarrow> error + real list list" where
  "calculate_margin_probabilities marginal_probabilities =
     (case dims marginal_probabilities of (T, B, W) \<Rightarrow>
       (case (if W \<noteq> 5
              then (if W < 2 then Inl IndexError
                    else Inr (map (map collapse_row) (vals marginal_probabilities), min W 5))
              else Inr (vals marginal_probabilities, W)) of
          Inl e \<Rightarrow> Inl e
        | Inr (mp, W') \<Rightarrow>
            if W' < 3 then Inl IndexError
            else if T = 0 \<and> 0 < B then Inl NanResult
            else
              let probs_reduced_prefix =
                    map (\<lambda>b. (\<Sum>m\<leftarrow>take 50 mp. m ! b ! 2) / real (length (take 50 mp))) [0..<B];
                  probs_reduced =
                    map (\<lambda>b. map (\<lambda>c. (\<Sum>m\<leftarrow>mp. m ! b ! c) / real T) [0..<W']) [0..<B]
              in Inr (map (\<lambda>b. (probs_reduced ! b)[2 := probs_reduced_prefix ! b]) [0..<B])))"

section \<open>Encoding of amino acids\<close>

text \<open>
  The alphabet is the result of \<open>"A,R,N,...,U".split(",")\<close>.  The substitution matrix
  read from \<open>data/blosum62.csv\<close> is the argument \<open>blosum_matrix\<close> (its rows, converted
  to integers); the module-level cache \<open>blosum_encoder\<close> is passed in and returned.  A
  Python dictionary is an association list.
\<close>

fun split_on :: "char \<Rightarrow> string \<Rightarrow> string list" where
  "split_on sep [] = [[]]"
| "split_on sep (x # xs) =
     (if x = sep then [] # split_on sep xs
      else (case split_on sep xs of [] \<Rightarrow> [[x]] | w # ws \<Rightarrow> (x # w) # ws))"

definition amino_acid_key :: "string list" where
  "amino_acid_key = split_on CHR '','' ''A,R,N,D,C,Q,E,G,H,I,L,K,M,F,P,S,T,W,Y,V,B,Z,X,U''"

text \<open>What \<open>encode_amino_acid\<close> returns: a list of integers, an index, or \<open>None\<close>.\<close>

datatype encoding = Vector "int list" | Index nat | NoneValue

type_synonym blosum_dict = "(string \<times> int list) list"

text \<open>The loop filling \<open>key_map\<close>; row \<open>idx\<close> of a matrix with too few rows raises.\<close>

fun key_map_loop :: "int list list \<Rightarrow> (nat \<times> string) list \<Rightarrow> blosum_dict \<Rightarrow> error + blosum_dict" where
  "key_map_loop blosum_matrix [] key_map = Inr key_map"
| "key_map_loop blosum_matrix ((idx, v) # rest) key_map =
     (if idx < length blosum_matrix
      then key_map_loop blosum_matrix rest (AList.update v (blosum_matrix ! idx) key_map)
      else Inl IndexError)"

definition dict_get :: "blosum_dict \<Rightarrow> string \<Rightarrow> error + encoding" where
  "dict_get d letter = (case map_of d letter of None \<Rightarrow> Inl KeyError | Some v \<Rightarrow> Inr (Vector v))"

text \<open>The loop of the index mode: the first index whose key is the letter; when the
  loop ends without a match the function returns nothing.\<close>

fun first_index :: "(nat \<times> string) list \<Rightarrow> string \<Rightarrow> encoding" where
  "first_index [] letter = NoneValue"
| "first_index ((idx, k) # rest) letter = (if k = letter then Index idx else first_index rest letter)"

definition encode_amino_acid ::
  "string \<Rightarrow> int list list \<Rightarrow> blosum_dict option \<Rightarrow> string \<Rightarrow> (error + encoding) \<times> blosum_dict option" where
  "encode_amino_acid embedding blosum_matrix blosum_encoder letter =
     (if embedding = ''BLOSUM62'' then
        (if blosum_encoder = None \<or> blosum_encoder = Some [] then
           (case key_map_loop blosum_matrix (enumerate 0 amino_acid_key) [] of
              Inl e \<Rightarrow> (Inl e, blosum_encoder)
            | Inr key_map \<Rightarrow> (dict_get key_map letter, Some key_map))
         else (dict_get (the blosum_encoder) letter, blosum_encoder))
      else if embedding = ''ONEHOT'' then
        (Inr (Vector (map (\<lambda>k. if k = letter then 1 else 0) amino_acid_key)), blosum_encoder)
      else if embedding = ''PYTORCH'' then
        (Inr (first_index (enumerate 0 amino_acid_key) letter), blosum_encoder)
      else (Inr NoneValue, blosum_encoder))"

text \<open>The cache is written by \<open>encode_amino_acid\<close> only: when present, its keys
  are symbols of the alphabet.\<close>

definition valid_cache :: "blosum_dict option \<Rightarrow> bool" where
  "valid_cache g \<longleftrightarrow> (case g of None \<Rightarrow> True | Some d \<Rightarrow> fst ` set d \<subseteq> set amino_acid_key)"

section \<open>Viterbi decoding of the CRF\<close>

text \<open>
  Modelled from the spec: the CRF library (\<open>pytorchcrf\<close>, whose \<open>CRF.decode\<close> the method
  \<open>forward\<close> calls) is not among the sources.  The spec describes \<open>decode\<close> as a Viterbi
  search for the path of maximal score, where the score of a path is the start score of
  its first tag, the emission score of every tag at its position, the transition score
  of every pair of consecutive tags and the end score of its last tag; ties are broken
  in favour of the maximum met first.  Scores are reals, so rounding is not
  represented.  \<open>argmax_first\<close> is the index of the first maximum of a list.
\<close>

fun argmax_first :: "real list \<Rightarrow> nat" where
  "argmax_first [] = 0"
| "argmax_first (x # xs) =
     (if xs \<noteq> [] \<and> x < xs ! argmax_first xs then Suc (argmax_first xs) else 0)"

text \<open>
  Modelled from the spec: the Viterbi recursion.  The state holds, for every tag, the
  best score of a path ending in that tag and that path (last tag first).
\<close>

type_synonym viterbi_state = "(real \<times> nat list) list"

definition viterbi_init :: "crf \<Rightarrow> real list \<Rightarrow> viterbi_state" where
  "viterbi_init c e =
     map (\<lambda>k. (start_transitions c ! k + e ! k, [k])) [0..<length (start_transitions c)]"

definition viterbi_step :: "crf \<Rightarrow> real list \<Rightarrow> viterbi_state \<Rightarrow> viterbi_state" where
  "viterbi_step c e st =
     map (\<lambda>k. let next_score = map (\<lambda>i. fst (st ! i) + transitions c ! i ! k)
                                   [0..<length (start_transitions c)];
                   i = argmax_first next_score
               in (next_score ! i + e ! k, k # snd (st ! i)))
       [0..<length (start_transitions c)]"

definition viterbi_decode :: "crf \<Rightarrow> real list list \<Rightarrow> error + nat list" where
  "viterbi_decode c emission =
     (case emission of
        [] \<Rightarrow> Inl IndexError
      | e # es \<Rightarrow>
          if length (start_transitions c) = 0 then Inl RuntimeError
          else
            let st = fold (viterbi_step c) es (viterbi_init c e);
                final = map (\<lambda>k. fst (st ! k) + end_transitions c ! k)
                          [0..<length (start_transitions c)]
            in Inr (rev (snd (st ! argmax_first final))))"

text \<open>
  Modelled from the spec: \<open>decode\<close> on a batch.  The emissions have one matrix
  (sequence by tag) per timestep, the mask one row (of 0 or 1 per sequence) per
  timestep; the length of sequence \<open>j\<close> is the number of timesteps at which it is
  active, and its path is decoded from its emissions at these first timesteps.
\<close>

fun collect :: "(error + 'a) list \<Rightarrow> error + 'a list" where
  "collect [] = Inr []"
| "collect (x # xs) =
     (case x of
        Inl e \<Rightarrow> Inl e
      | Inr v \<Rightarrow> (case collect xs of Inl e \<Rightarrow> Inl e | Inr vs \<Rightarrow> Inr (v # vs)))"

definition decode :: "crf \<Rightarrow> real list list list \<Rightarrow> nat list list \<Rightarrow> error + nat list list" where
  "decode c emissions msk =
     collect (map (\<lambda>j. viterbi_decode c
                          (map (\<lambda>m. m ! j) (take (sum_list (map (\<lambda>r. r ! j) msk)) emissions)))
                [0..<(case emissions of [] \<Rightarrow> 0 | m # _ \<Rightarrow> length m)])"

text \<open>A path is allowed when every pair of consecutive tags is an allowed transition.\<close>

fun allowed_path :: "(int \<times> int) set \<Rightarrow> nat list \<Rightarrow> bool" where
  "allowed_path S (i # k # p) = ((int i, int k) \<in> S \<and> allowed_path S (k # p))"
| "allowed_path S p = True"

text \<open>
  The notions used to prove the decoder optimal.  \<open>rscore\<close> is the score, without the
  end score, of a path given last tag first, on emissions given last timestep first;
  \<open>rallowed\<close> is \<open>allowed_path\<close> on such a path; \<open>vinv\<close> is the invariant of the
  recursion; \<open>masked_scores\<close> and \<open>bounded_emissions\<close> bound the scores by \<open>B\<close> in absolute
  value, the forbidden transitions excepted, which hold the sentinel.
\<close>

fun rscore :: "crf \<Rightarrow> real list list \<Rightarrow> nat list \<Rightarrow> real" where
  "rscore c (e # e' # es) (k # k' # p) =
     rscore c (e' # es) (k' # p) + transitions c ! k' ! k + e ! k"
| "rscore c [e] [k] = start_transitions c ! k + e ! k"
| "rscore c es p = 0"

fun rallowed :: "(int \<times> int) set \<Rightarrow> nat list \<Rightarrow> bool" where
  "rallowed S (k # k' # p) = ((int k', int k) \<in> S \<and> rallowed S (k' # p))"
| "rallowed S p = True"

definition vinv :: "crf \<Rightarrow> nat \<Rightarrow> real list list \<Rightarrow> viterbi_state \<Rightarrow> bool" where
  "vinv c n res st \<longleftrightarrow>
     length st = n \<and>
     (\<forall>k<n. snd (st ! k) \<noteq> [] \<and> hd (snd (st ! k)) = k \<and>
        length (snd (st ! k)) = length res \<and> (\<forall>j \<in> set (snd (st ! k)). j < n) \<and>
        fst (st ! k) = rscore c res (snd (st ! k)) \<and>
        (\<forall>rq. rq \<noteq> [] \<and> hd rq = k \<and> length rq = length res \<and> (\<forall>j \<in> set rq. j < n)
           \<longrightarrow> rscore c res rq \<le> fst (st ! k)))"

definition masked_scores :: "nat \<Rightarrow> (int \<times> int) set \<Rightarrow> real \<Rightarrow> crf \<Rightarrow> bool" where
  "masked_scores n S B c \<longleftrightarrow>
     length (start_transitions c) = n \<and> length (end_transitions c) = n \<and>
     (\<forall>k<n. \<bar>start_transitions c ! k\<bar> \<le> B \<and> \<bar>end_transitions c ! k\<bar> \<le> B) \<and>
     (\<forall>i<n. \<forall>k<n. if (int i, int k) \<in> S then \<bar>transitions c ! i ! k\<bar> \<le> B
                    else transitions c ! i ! k = sentinel)"

definition bounded_emissions :: "nat \<Rightarrow> real \<Rightarrow> real list list \<Rightarrow> bool" where
  "bounded_emissions n B es \<longleftrightarrow> (\<forall>e \<in> set es. length e = n \<and> (\<forall>k<n. \<bar>e ! k\<bar> \<le> B))"

definition bounded_crf :: "real \<Rightarrow> crf \<Rightarrow> bool" where
  "bounded_crf B c \<longleftrightarrow>
     (\<forall>x \<in> set (start_transitions c). \<bar>x\<bar> \<le> B) \<and>
     (\<forall>x \<in> set (end_transitions c). \<bar>x\<bar> \<le> B) \<and>
     (\<forall>r \<in> set (transitions c). \<forall>x \<in> set r. \<bar>x\<bar> \<le> B)"

section \<open>The forward pass\<close>

text \<open>
  \<open>embed\<close> encodes every residue of every sequence and turns each sequence into a tensor:
  of integers in index mode, of floats otherwise.  The tensor constructors raise
  \<open>TypeError\<close> on a missing value and \<open>ValueError\<close> on rows of different lengths.  The cache
  of the substitution table is threaded through the calls of \<open>encode_amino_acid\<close>; an
  exception leaves it as the last call left it.
\<close>

datatype embedded = LongTensor "nat list" | FloatTensor "int list list"

fun encode_sequence ::
  "string \<Rightarrow> int list list \<Rightarrow> blosum_dict option \<Rightarrow> string \<Rightarrow>
   (error + encoding list) \<times> blosum_dict option" where
  "encode_sequence emb blosum_matrix g [] = (Inr [], g)"
| "encode_sequence emb blosum_matrix g (aa # rest) =
     (case encode_amino_acid emb blosum_matrix g [aa] of
        (Inl e, g') \<Rightarrow> (Inl e, g')
      | (Inr enc, g') \<Rightarrow>
          (case encode_sequence emb blosum_matrix g' rest of
             (Inl e, g'') \<Rightarrow> (Inl e, g'')
           | (Inr encs, g'') \<Rightarrow> (Inr (enc # encs), g'')))"

fun indices :: "encoding list \<Rightarrow> nat list option" where
  "indices [] = Some []"
| "indices (Index i # rest) = map_option ((#) i) (indices rest)"
| "indices (_ # rest) = None"

fun vectors :: "encoding list \<Rightarrow> int list list option" where
  "vectors [] = Some []"
| "vectors (Vector v # rest) = map_option ((#) v) (vectors rest)"
| "vectors (_ # rest) = None"

definition to_tensor :: "string \<Rightarrow> encoding list \<Rightarrow> error + embedded" where
  "to_tensor emb t =
     (if emb = ''PYTORCH''
      then (case indices t of None \<Rightarrow> Inl TypeError | Some is \<Rightarrow> Inr (LongTensor is))
      else (case vectors t of
              None \<Rightarrow> Inl TypeError
            | Some [] \<Rightarrow> Inr (FloatTensor [])
            | Some (v # vs) \<Rightarrow>
                if list_all (\<lambda>w. length w = length v) vs then Inr (FloatTensor (v # vs))
                else Inl ValueError))"

fun embed ::
  "string \<Rightarrow> int list list \<Rightarrow> blosum_dict option \<Rightarrow> string list \<Rightarrow>
   (error + embedded list) \<times> blosum_dict option" where
  "embed emb blosum_matrix g [] = (Inr [], g)"
| "embed emb blosum_matrix g (aa_list # rest) =
     (case encode_sequence emb blosum_matrix g aa_list of
        (Inl e, g') \<Rightarrow> (Inl e, g')
      | (Inr t, g') \<Rightarrow>
          (case to_tensor emb t of
             Inl e \<Rightarrow> (Inl e, g')
           | Inr x \<Rightarrow>
               (case embed emb blosum_matrix g' rest of
                  (Inl e, g'') \<Rightarrow> (Inl e, g'')
                | (Inr embed_list, g'') \<Rightarrow> (Inr (x # embed_list), g''))))"

text \<open>
  \<open>pad_packed_sequence\<close> of torch, on the rows of a packed sequence and its batch sizes:
  timestep \<open>t\<close> takes the next \<open>batch_sizes[t]\<close> rows and is padded with rows of zeros up
  to the first batch size; it also returns the length of every sequence.  The packed
  sequence comes from the LSTM, so it is taken to be consistent.
\<close>

fun unpack :: "nat \<Rightarrow> nat \<Rightarrow> real list list \<Rightarrow> nat list \<Rightarrow> real list list list" where
  "unpack batch width data [] = []"
| "unpack batch width data (bs # rest) =
     (take bs data @ replicate (batch - bs) (replicate width 0)) #
     unpack batch width (drop bs data) rest"

definition pad_packed_sequence ::
  "nat \<Rightarrow> real list list \<Rightarrow> nat list \<Rightarrow> real list list list \<times> int list" where
  "pad_packed_sequence width data batch_sizes =
     (let batch = (case batch_sizes of [] \<Rightarrow> 0 | b # _ \<Rightarrow> b)
      in (unpack batch width data batch_sizes,
          map (\<lambda>j. int (length (filter (\<lambda>bs. j < bs) batch_sizes))) [0..<batch]))"

text \<open>
  The model.  The fields \<open>self_...\<close> are attributes of the Python object
  (\<open>self_num_labels\<close> is the output size of \<open>hidden_to_labels\<close>; the two classifiers are set
  by \<open>train_type_predictor\<close> only, and reading them before raises \<open>AttributeError\<close>).  The
  other fields are what the sources do not contain: the rows of \<open>data/blosum62.csv\<close>;
  \<open>packed_scores\<close>, the embedding layer, the bidirectional LSTM and the linear layer
  with their learned weights (lines 162 to 172 of \<open>_get_network_emissions\<close>), returning
  the packed rows of scores and the batch sizes; \<open>marginal_softmax\<close>, the softmax of the
  CRF library's \<open>compute_log_marginal_probabilities\<close>; the classifiers' \<open>predict\<close>; and
  two functions of \<open>tm_util\<close>.
\<close>

record tmhmm3 =
  self_embedding :: string
  self_use_marg_prob :: bool
  self_use_hmm_model :: bool
  self_num_labels :: nat
  self_crfModel :: crf
  self_type_classier_tm :: "(real list list \<Rightarrow> int list) option"
  self_type_classier_sp :: "(real list list \<Rightarrow> int list) option"
  blosum_file :: "int list list"
  packed_scores :: "embedded list \<Rightarrow> error + real list list \<times> nat list"
  marginal_softmax :: "crf \<Rightarrow> real list list list \<Rightarrow> nat list list \<Rightarrow> error + tensor3"
  remapped_labels_to_orginal_labels :: "nat list \<Rightarrow> nat list"
  get_predicted_type_from_labels :: "nat list \<Rightarrow> int"

text \<open>\<open>_get_network_emissions\<close>: the padded emissions and the sequence lengths.\<close>

definition get_network_emissions ::
  "tmhmm3 \<Rightarrow> embedded list \<Rightarrow> error + real list list list \<times> int list" where
  "get_network_emissions self input_sequences =
     (case packed_scores self input_sequences of
        Inl e \<Rightarrow> Inl e
      | Inr (emissions, batch_sizes) \<Rightarrow>
          (case network_emissions (self_use_hmm_model self) (self_num_labels self) emissions of
             Inl e \<Rightarrow> Inl e
           | Inr emissions' \<Rightarrow>
               Inr (pad_packed_sequence
                      (num_tags_of (self_num_labels self) (self_use_hmm_model self))
                      emissions' batch_sizes)))"

text \<open>The first lines of \<open>calculate_margin_probabilities\<close>, up to the softmax, followed by
  the reduction defined above.\<close>

definition margin_probabilities :: "tmhmm3 \<Rightarrow> embedded list \<Rightarrow> error + real list list" where
  "margin_probabilities self input_sequences =
     (case get_network_emissions self input_sequences of
        Inl e \<Rightarrow> Inl e
      | Inr (emissions, batch_sizes) \<Rightarrow>
          (case batch_sizes_to_mask batch_sizes of
             Inl e \<Rightarrow> Inl e
           | Inr msk \<Rightarrow>
               (case marginal_softmax self (self_crfModel self) emissions msk of
                  Inl e \<Rightarrow> Inl e
                | Inr marginal_probabilities \<Rightarrow>
                    calculate_margin_probabilities marginal_probabilities)))"

text \<open>The branch of \<open>forward\<close> on \<open>use_marg_prob\<close> that computes the predicted types.\<close>

definition predict_types ::
  "tmhmm3 \<Rightarrow> embedded list \<Rightarrow> nat list list \<Rightarrow> error + int list" where
  "predict_types self input_sequences predicted_labels =
     (if self_use_marg_prob self then
        (case margin_probabilities self input_sequences of
           Inl e \<Rightarrow> Inl e
         | Inr marginal_probabilities \<Rightarrow>
             (case self_type_classier_tm self of
                None \<Rightarrow> Inl AttributeError
              | Some predict_tm \<Rightarrow>
                  (case self_type_classier_sp self of
                     None \<Rightarrow> Inl AttributeError
                   | Some predict_sp \<Rightarrow>
                       Inr (map get_type_from_tm_sp
                              (zip (predict_tm marginal_probabilities)
                                   (predict_sp marginal_probabilities))))))
      else Inr (map (get_predicted_type_from_labels self) predicted_labels))"

text \<open>
  \<open>forward\<close>.  Its last line is \<open>return predicted_labels, predicted_types if forced_types
  is None else forced_types\<close>: the conditional expression is the second component of
  the pair.
\<close>

definition forward ::
  "tmhmm3 \<Rightarrow> blosum_dict option \<Rightarrow> string list \<Rightarrow> int list option \<Rightarrow>
   (error + nat list list \<times> int list) \<times> blosum_dict option" where
  "forward self g original_aa_string forced_types =
     (case embed (self_embedding self) (blosum_file self) g original_aa_string of
        (Inl e, g') \<Rightarrow> (Inl e, g')
      | (Inr input_sequences, g') \<Rightarrow>
          (case get_network_emissions self input_sequences of
             Inl e \<Rightarrow> Inl e
           | Inr (emissions, batch_sizes) \<Rightarrow>
               (case batch_sizes_to_mask batch_sizes of
                  Inl e \<Rightarrow> Inl e
                | Inr msk \<Rightarrow>
                    (case decode (self_crfModel self) emissions msk of
                       Inl e \<Rightarrow> Inl e
                     | Inr labels_remapped \<Rightarrow>
                         (let predicted_labels =
                                map (remapped_labels_to_orginal_labels self) labels_remapped
                          in case predict_types self input_sequences predicted_labels of
                               Inl e \<Rightarrow> Inl e
                             | Inr predicted_types \<Rightarrow>
                                 Inr (predicted_labels,
                                      (case forced_types of
                                         None \<Rightarrow> predicted_types
                                       | Some f \<Rightarrow> f))))),
           g'))"

section \<open>Properties of the type labels\<close>

text \<open>
  C6: the helpers compute exactly the tables
  is\_sp(0)=0, is\_sp(1)=1, is\_sp(2)=1, is\_sp(3)=0;
  is\_tm(0)=1, is\_tm(1)=1, is\_tm(2)=0, is\_tm(3)=0;
  get\_type\_from\_tm\_sp maps (1,1) to 1, (1,0) to 0, (0,1) to 2 and (0,0) to 3.
\<close>

theorem type_label_tables:
  "is_sp 0 = 0 \<and> is_sp 1 = 1 \<and> is_sp 2 = 1 \<and> is_sp 3 = 0 \<and>
   is_tm 0 = 1 \<and> is_tm 1 = 1 \<and> is_tm 2 = 0 \<and> is_tm 3 = 0 \<and>
   get_type_from_tm_sp (1, 1) = 1 \<and> get_type_from_tm_sp (1, 0) = 0 \<and>
   get_type_from_tm_sp (0, 1) = 2 \<and> get_type_from_tm_sp (0, 0) = 3"
  by (simp add: is_sp_def is_tm_def)

text \<open>
  C10: round trip of the type encoding: for every protein type t in {0,1,2,3},
  get\_type\_from\_tm\_sp((is\_tm(t), is\_sp(t))) = t.
\<close>

theorem type_round_trip:
  "t \<in> {0, 1, 2, 3} \<Longrightarrow> get_type_from_tm_sp (is_tm t, is_sp t) = t"
  by (auto simp: is_sp_def is_tm_def)

theorem type_round_trip_witness:
  "(2::int) \<in> {0, 1, 2, 3} \<and> get_type_from_tm_sp (is_tm 2, is_sp 2) = 2"
  using type_round_trip [of 2] by simp

section \<open>Properties of the transition mask and of the masked CRF\<close>

lemma mask_step_shp: "shp n m \<Longrightarrow> shp n (mask_step S i k m)"
  by (cases "i < length m") (auto simp: shp_def mask_step_def nth_list_update)

lemma mask_step_nth:
  "shp n m \<Longrightarrow> i < n \<Longrightarrow> k < n \<Longrightarrow> r < n \<Longrightarrow> c < n \<Longrightarrow>
   mask_step S i k m ! r ! c = (if r = i \<and> c = k \<and> (int i, int k) \<in> S then 0 else m ! r ! c)"
  by (auto simp: shp_def mask_step_def nth_list_update)

text \<open>The inner loop over \<open>k\<close>, after \<open>b\<close> rounds, has cleared the allowed entries
  of row \<open>i\<close> in the columns below \<open>b\<close> and nothing else.\<close>

lemma inner_loop:
  "shp n m \<Longrightarrow> i < n \<Longrightarrow> b \<le> n \<Longrightarrow>
   shp n (fold (mask_step S i) [0..<b] m) \<and>
   (\<forall>r<n. \<forall>c<n. fold (mask_step S i) [0..<b] m ! r ! c =
      (if r = i \<and> c < b \<and> (int i, int c) \<in> S then 0 else m ! r ! c))"
proof (induction b)
  case 0
  then show ?case by simp
next
  case (Suc b)
  let ?m = "fold (mask_step S i) [0..<b] m"
  from Suc have sh: "shp n ?m"
    and nth: "\<And>r c. r < n \<Longrightarrow> c < n \<Longrightarrow>
        ?m ! r ! c = (if r = i \<and> c < b \<and> (int i, int c) \<in> S then 0 else m ! r ! c)"
    by auto
  have b: "b < n" using Suc.prems by simp
  have eq: "fold (mask_step S i) [0..<Suc b] m = mask_step S i b ?m" by simp
  show ?case
    unfolding eq
    using mask_step_shp [OF sh] mask_step_nth [OF sh \<open>i < n\<close> b] nth
    by (auto simp: less_Suc_eq)
qed

lemma outer_loop:
  "shp n m \<Longrightarrow> a \<le> n \<Longrightarrow>
   shp n (fold (\<lambda>i m. fold (mask_step S i) [0..<n] m) [0..<a] m) \<and>
   (\<forall>r<n. \<forall>c<n. fold (\<lambda>i m. fold (mask_step S i) [0..<n] m) [0..<a] m ! r ! c =
      (if r < a \<and> (int r, int c) \<in> S then 0 else m ! r ! c))"
proof (induction a)
  case 0
  then show ?case by simp
next
  case (Suc a)
  let ?m = "fold (\<lambda>i m. fold (mask_step S i) [0..<n] m) [0..<a] m"
  from Suc have sh: "shp n ?m"
    and nth: "\<And>r c. r < n \<Longrightarrow> c < n \<Longrightarrow>
        ?m ! r ! c = (if r < a \<and> (int r, int c) \<in> S then 0 else m ! r ! c)"
    by auto
  have a: "a < n" using Suc.prems by simp
  have eq: "fold (\<lambda>i m. fold (mask_step S i) [0..<n] m) [0..<Suc a] m
        = fold (mask_step S a) [0..<n] ?m" by simp
  show ?case
    unfolding eq
    using inner_loop [OF sh a order_refl, of S] nth
    by (auto simp: less_Suc_eq)
qed

lemma shp_ones: "shp n (ones n n)"
  by (simp add: shp_def ones_def)

lemma mask_shape: "shp n (crf_transitions_mask S n)"
  unfolding crf_transitions_mask_def using outer_loop [OF shp_ones order_refl] by blast

lemma mask_entry:
  "i < n \<Longrightarrow> k < n \<Longrightarrow>
   crf_transitions_mask S n ! i ! k = (if (int i, int k) \<in> S then 0 else 1)"
  unfolding crf_transitions_mask_def using outer_loop [OF shp_ones order_refl, of n S]
  by (simp add: ones_def)

text \<open>The scenario of two tags of which only the transitions between different tags
  are allowed.\<close>

lemma mask_two_tags:
  "crf_transitions_mask {(0, 1), (1, 0)} 2 = [[1, 0], [0, 1]]"
  by (simp add: crf_transitions_mask_def ones_def mask_step_def numeral_2_eq_2)

lemma fill_row_nth:
  "length msk = length t \<Longrightarrow> k < length t \<Longrightarrow>
   fill_row t msk v ! k = (if msk ! k \<noteq> 0 then v else t ! k)"
  by (simp add: fill_row_def)

lemma masked_fill2_shp:
  assumes "shp n t" "shp n msk"
  shows "masked_fill2 t msk v = Inr (map (\<lambda>(r, mr). fill_row r mr v) (zip t msk))"
  using assms by (simp add: masked_fill2_def shp_def list_all2_conv_all_nth)

lemma fill_matrix_nth:
  assumes "shp n t" "shp n msk" "i < n" "k < n"
  shows "map (\<lambda>(r, mr). fill_row r mr v) (zip t msk) ! i ! k =
         (if msk ! i ! k \<noteq> 0 then v else t ! i ! k)"
  using assms by (simp add: shp_def fill_row_nth)

lemma well_shaped_shp: "well_shaped n c \<Longrightarrow> shp n (transitions c)"
  by (simp add: well_shaped_def shp_def list_all_length)

text \<open>The constructor never fails on a CRF of the right shape, and this is the CRF it
  installs.\<close>

lemma init_crf_result:
  assumes "well_shaped (num_tags_of num_labels use_hmm_model) crf0"
  shows "init_crf num_labels use_hmm_model S crf0 =
         Inr \<lparr>start_transitions = start_transitions crf0,
              end_transitions = end_transitions crf0,
              transitions = map (\<lambda>(r, mr). fill_row r mr sentinel)
                (zip (transitions crf0)
                   (crf_transitions_mask S (num_tags_of num_labels use_hmm_model)))\<rparr>"
  using masked_fill2_shp [OF well_shaped_shp [OF assms] mask_shape]
  by (simp add: init_crf_def generate_masked_crf_transitions_def initialize_crf_parameters_def)

text \<open>
  C1: constructing a model with allowed-transition set S produces a pairwise mask M with
  M[i][k] = 0 exactly when (i,k) is in S and 1 otherwise, for all tag ids i, k below
  num\_tags; after masking, every forbidden entry of the CRF's transition matrix is the
  sentinel -100000000 and every allowed entry keeps its value.
\<close>

theorem transition_mask_and_masking:
  assumes "well_shaped (num_tags_of num_labels use_hmm_model) crf0"
    and "i < num_tags_of num_labels use_hmm_model"
    and "k < num_tags_of num_labels use_hmm_model"
  shows "crf_transitions_mask S (num_tags_of num_labels use_hmm_model) ! i ! k =
           (if (int i, int k) \<in> S then 0 else 1) \<and>
         (\<exists>c. init_crf num_labels use_hmm_model S crf0 = Inr c \<and>
              transitions c ! i ! k =
                (if (int i, int k) \<in> S then transitions crf0 ! i ! k else - 100000000))"
  using fill_matrix_nth [OF well_shaped_shp [OF assms(1)] mask_shape assms(2,3)]
    mask_entry [OF assms(2,3)] init_crf_result [OF assms(1)]
  by (simp add: sentinel_def)

theorem transition_mask_and_masking_witness:
  "well_shaped (num_tags_of 2 False)
     \<lparr>start_transitions = [1/10, -1/10], end_transitions = [1/20, 0],
      transitions = [[1/100, 1/50], [3/100, 1/25]]\<rparr> \<and>
   0 < num_tags_of 2 False \<and> 1 < num_tags_of 2 False \<and>
   crf_transitions_mask {(0,1),(1,0)} (num_tags_of 2 False) ! 0 ! 1 = 0 \<and>
   (\<exists>c. init_crf 2 False {(0,1),(1,0)}
          \<lparr>start_transitions = [1/10, -1/10], end_transitions = [1/20, 0],
           transitions = [[1/100, 1/50], [3/100, 1/25]]\<rparr> = Inr c \<and>
        transitions c ! 0 ! 1 = 1/50)"
proof -
  let ?c = "\<lparr>start_transitions = [1/10, -1/10], end_transitions = [1/20, 0],
      transitions = [[1/100, 1/50], [3/100, 1/25::real]]\<rparr>"
  have w: "well_shaped (num_tags_of 2 False) ?c"
    by (simp add: well_shaped_def num_tags_of_def)
  have a: "0 < num_tags_of 2 False" and b: "1 < num_tags_of 2 False"
    by (simp_all add: num_tags_of_def)
  show ?thesis
    using w a b transition_mask_and_masking [OF w a b, of "{(0,1),(1,0)}"]
    by simp
qed

text \<open>
  C3 says that construction also masks the start and the end score vectors.  It does
  not: the constructor passes no start mask and no end mask.  With two tags and no
  allowed transition at all, the whole transition matrix becomes the sentinel while the
  start and end vectors are those of the CRF before masking.
\<close>

theorem start_end_masks_counterexample:
  "init_crf 2 False {}
     \<lparr>start_transitions = [1/10, -1/10], end_transitions = [1/20, 0],
      transitions = [[1/100, 1/50], [3/100, 1/25]]\<rparr> =
   Inr \<lparr>start_transitions = [1/10, -1/10], end_transitions = [1/20, 0],
        transitions = [[- 100000000, - 100000000], [- 100000000, - 100000000]]\<rparr>"
  by (simp add: init_crf_def num_tags_of_def crf_transitions_mask_def ones_def mask_step_def
      generate_masked_crf_transitions_def masked_fill2_def fill_row_def
      initialize_crf_parameters_def numeral_2_eq_2 sentinel_def)

text \<open>
  C3, amended: construction derives and applies the pairwise transition mask only.  The
  start and the end score vectors of the constructed CRF are exactly those of the CRF
  before masking; the transition matrix has its forbidden entries overwritten with the
  sentinel and its allowed entries unchanged.
\<close>

theorem only_transitions_masked:
  assumes "well_shaped (num_tags_of num_labels use_hmm_model) crf0"
  shows "\<exists>c. init_crf num_labels use_hmm_model S crf0 = Inr c \<and>
           start_transitions c = start_transitions crf0 \<and>
           end_transitions c = end_transitions crf0 \<and>
           (\<forall>i < num_tags_of num_labels use_hmm_model.
            \<forall>k < num_tags_of num_labels use_hmm_model.
              transitions c ! i ! k =
                (if (int i, int k) \<in> S then transitions crf0 ! i ! k else - 100000000))"
proof -
  let ?n = "num_tags_of num_labels use_hmm_model"
  have "map (\<lambda>(r, mr). fill_row r mr sentinel)
          (zip (transitions crf0) (crf_transitions_mask S ?n)) ! i ! k =
        (if (int i, int k) \<in> S then transitions crf0 ! i ! k else - 100000000)"
    if "i < ?n" "k < ?n" for i k
    using fill_matrix_nth [OF well_shaped_shp [OF assms] mask_shape that] mask_entry [OF that]
    by (simp add: sentinel_def)
  then show ?thesis
    using init_crf_result [OF assms] by simp
qed

theorem only_transitions_masked_witness:
  "well_shaped (num_tags_of 2 False)
     \<lparr>start_transitions = [1/10, -1/10], end_transitions = [1/20, 0],
      transitions = [[1/100, 1/50], [3/100, 1/25]]\<rparr> \<and>
   (\<exists>c. init_crf 2 False {(0,1),(1,0)}
          \<lparr>start_transitions = [1/10, -1/10], end_transitions = [1/20, 0],
           transitions = [[1/100, 1/50], [3/100, 1/25]]\<rparr> = Inr c \<and>
        start_transitions c = [1/10, -1/10] \<and> end_transitions c = [1/20, 0] \<and>
        transitions c ! 0 ! 0 = - 100000000 \<and> transitions c ! 0 ! 1 = 1/50)"
proof -
  let ?c = "\<lparr>start_transitions = [1/10, -1/10], end_transitions = [1/20, 0],
      transitions = [[1/100, 1/50], [3/100, 1/25::real]]\<rparr>"
  have w: "well_shaped (num_tags_of 2 False) ?c"
    by (simp add: well_shaped_def num_tags_of_def)
  have n: "num_tags_of 2 False = 2"
    by (simp add: num_tags_of_def)
  from only_transitions_masked [OF w, of "{(0,1),(1,0)}"]
  obtain c where c: "init_crf 2 False {(0,1),(1,0)} ?c = Inr c"
      "start_transitions c = [1/10, -1/10]" "end_transitions c = [1/20, 0]"
      and all: "\<forall>i<2. \<forall>k<2. transitions c ! i ! k =
         (if (int i, int k) \<in> {(0,1),(1,0)} then transitions ?c ! i ! k else - 100000000)"
    unfolding n by auto
  from all have "transitions c ! 0 ! 0 = - 100000000" "transitions c ! 0 ! 1 = 1/50"
    by simp_all
  with w c show ?thesis by simp
qed

section \<open>Properties of the mask built from batch sizes\<close>

text \<open>
  C4 says that \<open>batch_sizes_to_mask\<close> applied to [2,2,2,1,1] returns the matrix of 5 rows and
  2 columns [[1,1],[1,1],[1,1],[1,0],[1,0]].  The function transposes the rows it
  builds, so it returns 2 rows of 5 entries.
\<close>

theorem batch_sizes_to_mask_counterexample:
  "batch_sizes_to_mask [2, 2, 2, 1, 1] = Inr [[1, 1, 1, 1, 1], [1, 1, 1, 0, 0]] \<and>
   batch_sizes_to_mask [2, 2, 2, 1, 1] \<noteq> Inr [[1, 1], [1, 1], [1, 1], [1, 0], [1, 0]]"
  by (simp add: batch_sizes_to_mask_def numeral_2_eq_2)

text \<open>The matrix of C4 is what the function returns on the sequence lengths [5, 3],
  which is what \<open>forward\<close> passes to it.\<close>

lemma batch_sizes_to_mask_lengths:
  "batch_sizes_to_mask [5, 3] = Inr [[1, 1], [1, 1], [1, 1], [1, 0], [1, 0]]"
  by code_simp

text \<open>
  C4, amended: on a non-empty vector whose entries lie between 0 and its first entry,
  \<open>batch_sizes_to_mask\<close> returns a matrix with one row per sequence index j below the first
  entry and one column per position t of the vector, whose entry at (row j, column t) is
  1 exactly when j < batch\_size[t] and 0 otherwise.
\<close>

theorem batch_sizes_to_mask_entries:
  assumes ne: "bs \<noteq> []" and rng: "\<forall>b \<in> set bs. 0 \<le> b \<and> b \<le> hd bs"
  shows "\<exists>m. batch_sizes_to_mask bs = Inr m \<and> length m = nat (hd bs) \<and>
           (\<forall>j < nat (hd bs). length (m ! j) = length bs \<and>
              (\<forall>t < length bs. m ! j ! t = (if int j < bs ! t then 1 else 0)))"
proof -
  let ?row = "\<lambda>b. replicate (nat b) (1::nat) @ replicate (nat (hd bs - b)) 0"
  let ?rows = "map ?row bs"
  let ?n = "nat (hd bs)"
  have len: "length (?row b) = ?n" if "b \<in> set bs" for b
    using rng that by auto
  have len': "\<forall>i < length ?rows. length (?rows ! i) = ?n"
    using len by simp
  have rne: "?rows \<noteq> []" using ne by simp
  have tr: "transpose ?rows = map (\<lambda>i. map (\<lambda>j. ?rows ! j ! i) [0..<length ?rows]) [0..<?n]"
    by (rule transpose_rectangle) (use rne len' in auto)
  obtain r rs where rr: "?rows = r # rs" using rne by (cases ?rows) auto
  have "length r = ?n" using len' rr by (metis length_greater_0_conv nth_Cons_0 rne)
  moreover have "\<forall>x \<in> set rs. length x = ?n"
    using len rr by (metis (no_types, lifting) imageE list.set_intros(2) list.set_map)
  ultimately have res: "batch_sizes_to_mask bs = Inr (transpose ?rows)"
    unfolding batch_sizes_to_mask_def rr by simp
  have ent: "?rows ! t ! j = (if int j < bs ! t then 1 else 0)" if "t < length bs" "j < ?n" for t j
  proof -
    have "bs ! t \<in> set bs" using that by simp
    then have "0 \<le> bs ! t" "bs ! t \<le> hd bs" using rng by auto
    then show ?thesis using that by (auto simp: nth_append)
  qed
  show ?thesis
    unfolding res tr using ent by simp
qed

theorem batch_sizes_to_mask_entries_witness:
  "[2, 2, 2, 1, 1 :: int] \<noteq> [] \<and>
   list_all (\<lambda>b. 0 \<le> b \<and> b \<le> hd [2, 2, 2, 1, 1]) [2, 2, 2, 1, 1 :: int] \<and>
   (\<exists>m. batch_sizes_to_mask [2, 2, 2, 1, 1] = Inr m \<and> length m = 2 \<and>
        m ! 1 ! 2 = 1 \<and> m ! 1 ! 3 = 0)"
proof -
  have ne: "[2, 2, 2, 1, 1 :: int] \<noteq> []" by simp
  have rng: "\<forall>b \<in> set [2, 2, 2, 1, 1 :: int]. 0 \<le> b \<and> b \<le> hd [2, 2, 2, 1, 1]" by simp
  from batch_sizes_to_mask_entries [OF ne rng]
  obtain m where m: "batch_sizes_to_mask [2, 2, 2, 1, 1] = Inr m" "length m = 2"
    and ent: "\<forall>j < 2. length (m ! j) = 5 \<and>
       (\<forall>t < 5. m ! j ! t = (if int j < [2, 2, 2, 1, 1] ! t then 1 else 0))"
    by auto
  from ent have "\<forall>t < 5. m ! 1 ! t = (if int 1 < [2, 2, 2, 1, 1] ! t then 1 else 0)"
    by simp
  then have "m ! 1 ! 2 = 1" "m ! 1 ! 3 = 0"
    by (simp_all add: numeral_nat)
  with ne m show ?thesis by simp
qed

section \<open>Properties of the emissions\<close>

text \<open>
  C7: with the augmented tag model the tag alphabet has num\_labels + 80 ids, and every
  emission row has that width: the base num\_labels columns come first and unchanged,
  column num\_labels + j is base column 0 and column num\_labels + 40 + j is base column
  1, for every j below 40.
\<close>

theorem augmented_emissions:
  assumes "\<forall>r \<in> set emissions. length r = num_labels" and "2 \<le> num_labels"
  shows "num_tags_of num_labels True = num_labels + 80 \<and>
         (\<exists>out. network_emissions True num_labels emissions = Inr out \<and>
            length out = length emissions \<and>
            (\<forall>p < length emissions.
               length (out ! p) = num_tags_of num_labels True \<and>
               take num_labels (out ! p) = emissions ! p \<and>
               (\<forall>j < 40. out ! p ! (num_labels + j) = emissions ! p ! 0 \<and>
                         out ! p ! (num_labels + 40 + j) = emissions ! p ! 1)))"
  using assms
  by (auto simp: network_emissions_def hmm_emissions_def num_tags_of_def nth_append)

theorem augmented_emissions_witness:
  "list_all (\<lambda>r. length r = 3) [[1, 2, 3], [4, 5, 6 :: real]] \<and> (2::nat) \<le> 3 \<and>
   num_tags_of 3 True = 83 \<and>
   (\<exists>out. network_emissions True 3 [[1, 2, 3], [4, 5, 6]] = Inr out \<and>
      length (out ! 1) = 83 \<and> take 3 (out ! 1) = [4, 5, 6] \<and>
      out ! 1 ! (3 + 7) = 4 \<and> out ! 1 ! (3 + 40 + 7) = 5)"
proof -
  have a: "\<forall>r \<in> set [[1, 2, 3], [4, 5, 6 :: real]]. length r = 3" by simp
  have b: "(2::nat) \<le> 3" by simp
  from augmented_emissions [OF a b]
  obtain out where n: "num_tags_of 3 True = 3 + 80"
    and out: "network_emissions True 3 [[1, 2, 3], [4, 5, 6]] = Inr out"
    and all: "\<forall>p < 2. length (out ! p) = num_tags_of 3 True \<and>
               take 3 (out ! p) = [[1, 2, 3], [4, 5, 6]] ! p \<and>
               (\<forall>j < 40. out ! p ! (3 + j) = [[1, 2, 3], [4, 5, 6]] ! p ! 0 \<and>
                         out ! p ! (3 + 40 + j) = [[1, 2, 3], [4, 5, 6]] ! p ! 1)"
    by auto
  from all have p1: "length (out ! 1) = num_tags_of 3 True" "take 3 (out ! 1) = [4, 5, 6]"
    and j: "\<forall>j < 40. out ! 1 ! (3 + j) = 4 \<and> out ! 1 ! (3 + 40 + j) = 5"
    by simp_all
  from j [rule_format, of 7] have "out ! 1 ! (3 + 7) = 4" "out ! 1 ! (3 + 40 + 7) = 5"
    by simp_all
  with a b n out p1 show ?thesis by simp
qed

section \<open>Properties of the reduced marginal probabilities\<close>

lemma sum_list_slice:
  "sum_list (take n (drop a (r::real list))) = (\<Sum>c = a ..< min (a + n) (length r). r ! c)"
proof -
  have "sum_list (take n (drop a r)) = (\<Sum>i = 0 ..< length (take n (drop a r)). take n (drop a r) ! i)"
    by (rule sum_list_sum_nth)
  also have "\<dots> = (\<Sum>i = 0 ..< min n (length r - a). r ! (a + i))"
    by (intro sum.cong) auto
  also have "\<dots> = (\<Sum>c = a ..< min (a + n) (length r). r ! c)"
    by (rule sum.reindex_bij_witness [of _ "\<lambda>c. c - a" "\<lambda>i. a + i"]) auto
  finally show ?thesis .
qed

lemma sum_list_nth_map:
  "(\<Sum>m\<leftarrow>xs. f m) = (\<Sum>t < length xs. f (xs ! t))"
  by (simp add: sum_list_sum_nth atLeast0LessThan)

lemma collapse_row_props:
  assumes "5 \<le> length r"
  shows "length (collapse_row r) = 5"
    and "collapse_row r ! 0 = (\<Sum>c = 5 ..< min 45 (length r). r ! c)"
    and "collapse_row r ! 1 = (\<Sum>c = 45 ..< min 85 (length r). r ! c)"
    and "collapse_row r ! 2 = r ! 2" and "collapse_row r ! 3 = r ! 3"
    and "collapse_row r ! 4 = r ! 4"
proof -
  let ?r1 = "r[0 := sum_list (take 40 (drop 5 r))]"
  have a: "sum_list (take 40 (drop 45 ?r1)) = (\<Sum>c = 45 ..< min 85 (length r). r ! c)"
    unfolding sum_list_slice by (intro sum.cong) auto
  have l: "0 < length r" "1 < length r" "2 < length r" "3 < length r" "4 < length r"
    using assms by auto
  show "length (collapse_row r) = 5" using assms by (simp add: collapse_row_def Let_def)
  show "collapse_row r ! 0 = (\<Sum>c = 5 ..< min 45 (length r). r ! c)"
    using l by (simp add: collapse_row_def Let_def sum_list_slice nth_list_update)
  show "collapse_row r ! 1 = (\<Sum>c = 45 ..< min 85 (length r). r ! c)"
    using l a by (simp add: collapse_row_def Let_def nth_list_update)
  show "collapse_row r ! 2 = r ! 2" "collapse_row r ! 3 = r ! 3" "collapse_row r ! 4 = r ! 4"
    using l by (simp_all add: collapse_row_def Let_def nth_list_update)
qed

lemma wf3_nth:
  assumes "wf3 x" "dims x = (T, B, W)" "t < T" "b < B"
  shows "length (vals x) = T" "length (vals x ! t) = B" "length (vals x ! t ! b) = W"
proof -
  from assms(1,2) have all: "length (vals x) = T"
      "\<And>m. m \<in> set (vals x) \<Longrightarrow> length m = B"
      "\<And>m r. m \<in> set (vals x) \<Longrightarrow> r \<in> set m \<Longrightarrow> length r = W"
    by (auto simp: wf3_def)
  show "length (vals x) = T" by (rule all(1))
  have m: "vals x ! t \<in> set (vals x)" using all(1) assms(3) by simp
  show 2: "length (vals x ! t) = B" by (rule all(2) [OF m])
  have "vals x ! t ! b \<in> set (vals x ! t)" using 2 assms(4) by simp
  then show "length (vals x ! t ! b) = W" by (rule all(3) [OF m])
qed

text \<open>
  C8: \<open>calculate_margin_probabilities\<close> returns, for every sequence b, a vector of 5
  components.  When the marginal tensor is wider than 5 classes, components 0 and 1 are
  the means over all timesteps of the sums of the sub-tag columns 5..44 and 45..84 (as
  far as the tensor has them); components 3 and 4 are the means of classes 3 and 4 over
  all timesteps; component 2 is the mean of class 2 over the first 50 timesteps only.
\<close>

theorem reduced_marginals:
  assumes wf: "wf3 mp" and d: "dims mp = (T, B, W)"
    and T: "0 < T" and W: "5 \<le> W" and b: "b < B"
  shows "\<exists>res. calculate_margin_probabilities mp = Inr res \<and>
     length res = B \<and> length (res ! b) = 5 \<and>
     (5 < W \<longrightarrow>
        res ! b ! 0 = (\<Sum>t < T. \<Sum>c = 5 ..< min 45 W. vals mp ! t ! b ! c) / real T \<and>
        res ! b ! 1 = (\<Sum>t < T. \<Sum>c = 45 ..< min 85 W. vals mp ! t ! b ! c) / real T) \<and>
     res ! b ! 2 = (\<Sum>t < min 50 T. vals mp ! t ! b ! 2) / real (min 50 T) \<and>
     res ! b ! 3 = (\<Sum>t < T. vals mp ! t ! b ! 3) / real T \<and>
     res ! b ! 4 = (\<Sum>t < T. vals mp ! t ! b ! 4) / real T"
proof (cases "W = 5")
  case True
  have len: "length (vals mp) = T" using wf d by (simp add: wf3_def)
  show ?thesis
    using True T b len
    by (simp add: calculate_margin_probabilities_def d Let_def sum_list_nth_map
        nth_list_update min_def)
next
  case False
  then have W5: "5 < W" using W by simp
  let ?mp = "map (map collapse_row) (vals mp)"
  have len: "length (vals mp) = T" using wf d by (simp add: wf3_def)
  have row: "?mp ! t ! b = collapse_row (vals mp ! t ! b)" "5 \<le> length (vals mp ! t ! b)"
    "length (vals mp ! t ! b) = W" if "t < T" for t
    using wf3_nth [OF wf d that b] that W b by simp_all
  have cr: "?mp ! t ! b ! 0 = (\<Sum>c = 5 ..< min 45 W. vals mp ! t ! b ! c)"
    "?mp ! t ! b ! 1 = (\<Sum>c = 45 ..< min 85 W. vals mp ! t ! b ! c)"
    "?mp ! t ! b ! 2 = vals mp ! t ! b ! 2" "?mp ! t ! b ! 3 = vals mp ! t ! b ! 3"
    "?mp ! t ! b ! 4 = vals mp ! t ! b ! 4" if "t < T" for t
    using collapse_row_props [OF row(2) [OF that]] row(1,3) [OF that] by simp_all
  have c0: "(\<Sum>t < T. ?mp ! t ! b ! 0) = (\<Sum>t < T. \<Sum>c = 5 ..< min 45 W. vals mp ! t ! b ! c)"
    by (intro sum.cong refl) (use cr in simp)
  have c1: "(\<Sum>t < T. ?mp ! t ! b ! 1) = (\<Sum>t < T. \<Sum>c = 45 ..< min 85 W. vals mp ! t ! b ! c)"
    by (intro sum.cong refl) (use cr in simp)
  have c2: "(\<Sum>t < min 50 T. ?mp ! t ! b ! 2) = (\<Sum>t < min 50 T. vals mp ! t ! b ! 2)"
    by (intro sum.cong refl) (use cr in simp)
  have c3: "(\<Sum>t < T. ?mp ! t ! b ! 3) = (\<Sum>t < T. vals mp ! t ! b ! 3)"
    by (intro sum.cong refl) (use cr in simp)
  have c4: "(\<Sum>t < T. ?mp ! t ! b ! 4) = (\<Sum>t < T. vals mp ! t ! b ! 4)"
    by (intro sum.cong refl) (use cr in simp)
  have tk: "(\<Sum>m\<leftarrow>take 50 ?mp. m ! b ! 2) = (\<Sum>t < min 50 T. ?mp ! t ! b ! 2)"
    unfolding sum_list_nth_map using len
    by (intro sum.cong) (auto simp: min_def split: if_splits)
  have res: "calculate_margin_probabilities mp =
      Inr (map (\<lambda>b. (map (\<lambda>c. (\<Sum>m\<leftarrow>?mp. m ! b ! c) / real T) [0..<5])
            [2 := (\<Sum>m\<leftarrow>take 50 ?mp. m ! b ! 2) / real (length (take 50 ?mp))]) [0..<B])"
    using W5 T by (simp add: calculate_margin_probabilities_def d Let_def)
  have l50: "length (take 50 ?mp) = min 50 T" using len by (simp add: min_def)
  have mc: "min T 50 = min 50 T" by simp
  show ?thesis
    unfolding res using b W5 c0 c1 c2 c3 c4 len
    by (simp add: nth_list_update tk l50 sum_list_nth_map mc)
qed

theorem reduced_marginals_witness:
  "wf3 \<lparr>dims = (2, 1, 7), vals = [[[1, 2, 3, 4, 5, 6, 7]], [[3, 4, 5, 6, 7, 8, 9]]]\<rparr> \<and>
   (0::nat) < 2 \<and> (5::nat) \<le> 7 \<and> (0::nat) < 1 \<and>
   (\<exists>res. calculate_margin_probabilities
       \<lparr>dims = (2, 1, 7), vals = [[[1, 2, 3, 4, 5, 6, 7]], [[3, 4, 5, 6, 7, 8, 9]]]\<rparr> = Inr res \<and>
      length (res ! 0) = 5 \<and> res ! 0 ! 0 = 15 \<and> res ! 0 ! 1 = 0 \<and> res ! 0 ! 2 = 4 \<and>
      res ! 0 ! 3 = 5 \<and> res ! 0 ! 4 = 6)"
proof -
  let ?mp = "\<lparr>dims = (2, 1, 7), vals = [[[1, 2, 3, 4, 5, 6, 7]], [[3, 4, 5, 6, 7, 8, 9 :: real]]]\<rparr>"
  have wf: "wf3 ?mp" by (simp add: wf3_def)
  have d: "dims ?mp = (2, 1, 7)" by simp
  have two: "{..<2::nat} = {0, 1}" by auto
  have r1: "{5..<7::nat} = {5, 6}" by auto
  from reduced_marginals [OF wf d, of 0]
  obtain res where "calculate_margin_probabilities ?mp = Inr res" "length (res ! 0) = 5"
    "res ! 0 ! 0 = 15" "res ! 0 ! 1 = 0" "res ! 0 ! 2 = 4" "res ! 0 ! 3 = 5" "res ! 0 ! 4 = 6"
    by (auto simp: two r1)
  with wf show ?thesis by auto
qed

section \<open>Properties of the encoding of amino acids\<close>

lemma amino_acid_key_eq:
  "amino_acid_key = [''A'', ''R'', ''N'', ''D'', ''C'', ''Q'', ''E'', ''G'', ''H'', ''I'', ''L'', ''K'',
   ''M'', ''F'', ''P'', ''S'', ''T'', ''W'', ''Y'', ''V'', ''B'', ''Z'', ''X'', ''U'']"
  by (simp add: amino_acid_key_def)

lemma length_amino_acid_key: "length amino_acid_key = 24"
  by (simp add: amino_acid_key_eq)

lemma key_map_loop_keys:
  "key_map_loop M xs d = Inr d' \<Longrightarrow> fst ` set d' = fst ` set d \<union> snd ` set xs"
proof (induction xs arbitrary: d)
  case Nil
  then show ?case by simp
next
  case (Cons x xs)
  obtain idx v where x: "x = (idx, v)" by (cases x)
  from Cons.prems have "key_map_loop M xs (AList.update v (M ! idx) d) = Inr d'"
    by (simp add: x split: if_splits)
  from Cons.IH [OF this] show ?case
    by (auto simp: x AList.dom_update)
qed

lemma snd_enumerate: "snd ` set (enumerate n xs) = set xs"
  by (induction xs arbitrary: n) auto

lemma dict_get_missing:
  "letter \<notin> fst ` set d \<Longrightarrow> dict_get d letter = Inl KeyError"
  using map_of_eq_None_iff [of d letter] by (simp add: dict_get_def)

lemma key_map_loop_error:
  "key_map_loop M xs d = Inl e \<Longrightarrow> e = IndexError"
  by (induction M xs d rule: key_map_loop.induct) (auto split: if_splits)

lemma first_index_missing:
  "letter \<notin> snd ` set xs \<Longrightarrow> first_index xs letter = NoneValue"
  by (induction xs) auto

lemma valid_cache_preserved:
  assumes "valid_cache g"
  shows "valid_cache (snd (encode_amino_acid embedding M g letter))"
proof (cases "embedding = ''BLOSUM62'' \<and> (g = None \<or> g = Some [])")
  case True
  show ?thesis
  proof (cases "key_map_loop M (enumerate 0 amino_acid_key) []")
    case (Inl e)
    then show ?thesis using True assms by (auto simp: encode_amino_acid_def)
  next
    case (Inr d)
    from key_map_loop_keys [OF Inr] have "fst ` set d = set amino_acid_key"
      by (simp add: snd_enumerate)
    then show ?thesis using True Inr by (auto simp: encode_amino_acid_def valid_cache_def)
  qed
next
  case False
  then have "snd (encode_amino_acid embedding M g letter) = g"
    by (auto simp: encode_amino_acid_def)
  then show ?thesis using assms by simp
qed


lemma one_hot_missing:
  "x \<notin> set xs \<Longrightarrow> map (\<lambda>k. if k = x then 1 else 0) xs = replicate (length xs) (0::int)"
  by (induction xs) auto

text \<open>
  C5 says that \<open>encode_amino_acid\<close> fails on a symbol outside the alphabet in every mode.
  In one-hot mode it returns the all-zero vector and in index mode it returns nothing.
\<close>

theorem unknown_symbol_counterexample:
  "fst (encode_amino_acid ''ONEHOT'' [] None ''J'') =
     Inr (Vector [0, 0, 0, 0, 0, 0, 0, 0, 0, 0, 0, 0, 0, 0, 0, 0, 0, 0, 0, 0, 0, 0, 0, 0]) \<and>
   fst (encode_amino_acid ''PYTORCH'' [] None ''J'') = Inr NoneValue"
  by (simp add: encode_amino_acid_def amino_acid_key_eq enumerate_eq_zip)

text \<open>
  C5, amended: on a symbol outside the 24-symbol alphabet, \<open>encode_amino_acid\<close> fails in
  substitution-matrix mode (with a key error, or with an index error when the matrix
  has too few rows), returns the all-zero vector of length 24 in one-hot mode, and
  returns no value in index mode.
\<close>

theorem unknown_symbol_encoding:
  assumes "letter \<notin> set amino_acid_key" and "valid_cache g"
  shows "fst (encode_amino_acid ''BLOSUM62'' M g letter) \<in> {Inl KeyError, Inl IndexError} \<and>
         fst (encode_amino_acid ''ONEHOT'' M g letter) = Inr (Vector (replicate 24 0)) \<and>
         fst (encode_amino_acid ''PYTORCH'' M g letter) = Inr NoneValue"
proof -
  have 1: "fst (encode_amino_acid ''BLOSUM62'' M g letter) \<in> {Inl KeyError, Inl IndexError}"
  proof (cases "g = None \<or> g = Some []")
    case True
    show ?thesis
    proof (cases "key_map_loop M (enumerate 0 amino_acid_key) []")
      case (Inl e)
      with key_map_loop_error [OF Inl] show ?thesis
        using True by (auto simp: encode_amino_acid_def)
    next
      case (Inr d)
      from key_map_loop_keys [OF Inr] have "fst ` set d = set amino_acid_key"
        by (simp add: snd_enumerate)
      with assms(1) have "dict_get d letter = Inl KeyError"
        by (intro dict_get_missing) simp
      then show ?thesis using True Inr by (auto simp: encode_amino_acid_def)
    qed
  next
    case False
    then obtain d where d: "g = Some d" by (cases g) auto
    with assms have "letter \<notin> fst ` set d" by (auto simp: valid_cache_def)
    then have "dict_get d letter = Inl KeyError" by (rule dict_get_missing)
    then show ?thesis using False d by (simp add: encode_amino_acid_def)
  qed
  have "map (\<lambda>k. if k = letter then 1 else 0) amino_acid_key = replicate 24 (0::int)"
    using one_hot_missing [OF assms(1)] by (simp add: length_amino_acid_key)
  then have 2: "fst (encode_amino_acid ''ONEHOT'' M g letter) = Inr (Vector (replicate 24 0))"
    by (simp add: encode_amino_acid_def)
  have 3: "fst (encode_amino_acid ''PYTORCH'' M g letter) = Inr NoneValue"
    using assms(1) first_index_missing [of letter "enumerate 0 amino_acid_key"]
    by (simp add: encode_amino_acid_def snd_enumerate)
  from 1 2 3 show ?thesis by blast
qed

theorem unknown_symbol_encoding_witness:
  "''J'' \<notin> set amino_acid_key \<and> valid_cache None \<and>
   fst (encode_amino_acid ''BLOSUM62'' (replicate 24 (replicate 24 0)) None ''J'')
     \<in> {Inl KeyError, Inl IndexError} \<and>
   fst (encode_amino_acid ''ONEHOT'' (replicate 24 (replicate 24 0)) None ''J'') =
     Inr (Vector (replicate 24 0)) \<and>
   fst (encode_amino_acid ''PYTORCH'' (replicate 24 (replicate 24 0)) None ''J'') = Inr NoneValue"
proof -
  have a: "''J'' \<notin> set amino_acid_key" by (simp add: amino_acid_key_eq)
  have b: "valid_cache None" by (simp add: valid_cache_def)
  from a b unknown_symbol_encoding [OF a b, of "replicate 24 (replicate 24 0)"]
  show ?thesis by blast
qed

section \<open>Properties of Viterbi decoding with masked transitions\<close>

lemma argmax_first_props:
  "xs \<noteq> [] \<Longrightarrow>
   argmax_first xs < length xs \<and> (\<forall>j < length xs. xs ! j \<le> xs ! argmax_first xs)"
proof (induction xs)
  case Nil
  then show ?case by simp
next
  case (Cons x xs)
  show ?case
  proof (cases "xs = []")
    case True
    then show ?thesis by simp
  next
    case False
    with Cons.IH have ih: "argmax_first xs < length xs"
      "\<And>j. j < length xs \<Longrightarrow> xs ! j \<le> xs ! argmax_first xs" by auto
    show ?thesis
    proof (cases "x < xs ! argmax_first xs")
      case True
      then show ?thesis using False ih by (auto simp: nth_Cons split: nat.splits)
    next
      case False
      then show ?thesis using ih by (fastforce simp: nth_Cons split: nat.splits)
    qed
  qed
qed

lemma argmax_first_less: "xs \<noteq> [] \<Longrightarrow> argmax_first xs < length xs"
  using argmax_first_props by blast

lemma argmax_first_max: "j < length xs \<Longrightarrow> xs ! j \<le> xs ! argmax_first xs"
  using argmax_first_props [of xs] by (cases "xs = []") auto

lemma vinv_init:
  "vinv c (length (start_transitions c)) [e] (viterbi_init c e)"
proof -
  have "rq = [hd rq]" if "rq \<noteq> []" "length rq = Suc 0" for rq :: "nat list"
    using that by (cases rq) auto
  then have "rscore c [e] rq = start_transitions c ! hd rq + e ! hd rq"
    if "rq \<noteq> []" "length rq = Suc 0" for rq
    using that by (metis rscore.simps(2))
  then show ?thesis
    by (auto simp: vinv_def viterbi_init_def)
qed

lemma vinv_path:
  assumes "vinv c n res st" "k < n"
  shows "snd (st ! k) \<noteq> []" "hd (snd (st ! k)) = k" "length (snd (st ! k)) = length res"
    "\<forall>j \<in> set (snd (st ! k)). j < n" "fst (st ! k) = rscore c res (snd (st ! k))"
  using assms unfolding vinv_def by blast+

lemma vinv_opt:
  assumes "vinv c n res st" "k < n" "rq \<noteq> []" "hd rq = k" "length rq = length res"
    "\<forall>j \<in> set rq. j < n"
  shows "rscore c res rq \<le> fst (st ! k)"
  using assms unfolding vinv_def by blast

lemma vinvI:
  assumes "length st = n"
    and "\<And>k. k < n \<Longrightarrow> snd (st ! k) \<noteq> [] \<and> hd (snd (st ! k)) = k \<and>
        length (snd (st ! k)) = length res \<and> (\<forall>j \<in> set (snd (st ! k)). j < n) \<and>
        fst (st ! k) = rscore c res (snd (st ! k))"
    and "\<And>k rq. k < n \<Longrightarrow> rq \<noteq> [] \<Longrightarrow> hd rq = k \<Longrightarrow> length rq = length res \<Longrightarrow>
        \<forall>j \<in> set rq. j < n \<Longrightarrow> rscore c res rq \<le> fst (st ! k)"
  shows "vinv c n res st"
  unfolding vinv_def using assms by blast

lemma vinv_step:
  assumes inv: "vinv c n res st" and n: "n = length (start_transitions c)" and ne: "res \<noteq> []"
  shows "vinv c n (e # res) (viterbi_step c e st)"
proof (rule vinvI)
  show "length (viterbi_step c e st) = n" by (simp add: viterbi_step_def n)
next
  fix k assume k: "k < n"
  let ?ns = "map (\<lambda>i. fst (st ! i) + transitions c ! i ! k) [0..<n]"
  let ?i = "argmax_first ?ns"
  obtain e' es' where res: "res = e' # es'" using ne by (cases res) auto
  have nsne: "?ns \<noteq> []" using k by auto
  from argmax_first_less [OF nsne]
  have i: "?i < n" by simp
  have stk: "viterbi_step c e st ! k = (?ns ! ?i + e ! k, k # snd (st ! ?i))"
    using k by (simp add: viterbi_step_def n Let_def)
  note si = vinv_path [OF inv i]
  obtain p where p: "snd (st ! ?i) = ?i # p" using si(1,2) by (cases "snd (st ! ?i)") auto
  have nsi: "?ns ! ?i = fst (st ! ?i) + transitions c ! ?i ! k" using i by simp
  have sc: "rscore c (e # res) (k # snd (st ! ?i)) = ?ns ! ?i + e ! k"
    unfolding nsi si(5) by (simp add: p res)
  show "snd (viterbi_step c e st ! k) \<noteq> [] \<and> hd (snd (viterbi_step c e st ! k)) = k \<and>
        length (snd (viterbi_step c e st ! k)) = length (e # res) \<and>
        (\<forall>j \<in> set (snd (viterbi_step c e st ! k)). j < n) \<and>
        fst (viterbi_step c e st ! k) = rscore c (e # res) (snd (viterbi_step c e st ! k))"
    unfolding stk using k si(3,4) sc by simp
next
  fix k rq
  assume k: "k < n" and rq: "rq \<noteq> []" "hd rq = k" "length rq = length (e # res)"
    "\<forall>j \<in> set rq. j < n"
  let ?ns = "map (\<lambda>i. fst (st ! i) + transitions c ! i ! k) [0..<n]"
  let ?i = "argmax_first ?ns"
  obtain e' es' where res: "res = e' # es'" using ne by (cases res) auto
  have nsne: "?ns \<noteq> []" using k by auto
  have mx: "?ns ! j \<le> ?ns ! ?i" if "j < n" for j
    by (rule argmax_first_max) (use that in simp)
  have stk: "fst (viterbi_step c e st ! k) = ?ns ! ?i + e ! k"
    using k by (simp add: viterbi_step_def n Let_def)
  obtain rq' where rq': "rq = k # rq'" using rq(1,2) by (cases rq) auto
  with rq(3) res obtain k' p' where kp: "rq' = k' # p'" by (cases rq') auto
  have k': "k' < n" using rq(4) rq' kp by simp
  have "rscore c res rq' \<le> fst (st ! k')"
  proof (rule vinv_opt [OF inv k'])
    show "rq' \<noteq> []" "hd rq' = k'" by (simp_all add: kp)
    show "length rq' = length res" using rq(3) rq' by simp
    show "\<forall>j \<in> set rq'. j < n" using rq(4) rq' by simp
  qed
  moreover have "rscore c (e # res) rq = rscore c res rq' + transitions c ! k' ! k + e ! k"
    by (simp add: rq' kp res)
  moreover have "?ns ! k' \<le> ?ns ! ?i" by (rule mx [OF k'])
  moreover have "?ns ! k' = fst (st ! k') + transitions c ! k' ! k" using k' by simp
  ultimately show "rscore c (e # res) rq \<le> fst (viterbi_step c e st ! k)"
    unfolding stk by linarith
qed

lemma vinv_fold:
  assumes "vinv c n res st" and "n = length (start_transitions c)" and "res \<noteq> []"
  shows "vinv c n (rev es @ res) (fold (viterbi_step c) es st)"
  using assms
proof (induction es arbitrary: res st)
  case Nil
  then show ?case by simp
next
  case (Cons e es)
  have "vinv c n (e # res) (viterbi_step c e st)"
    by (rule vinv_step [OF Cons.prems])
  from Cons.IH [OF this Cons.prems(2)] show ?case by simp
qed

text \<open>The decoded path has the maximal score among the paths of its length.\<close>

lemma viterbi_optimal:
  assumes n: "n = length (start_transitions c)" and pos: "0 < n"
  shows "\<exists>rp. viterbi_decode c (e # es) = Inr (rev rp) \<and> rp \<noteq> [] \<and>
            length rp = length (e # es) \<and> (\<forall>j \<in> set rp. j < n) \<and>
            (\<forall>rq. rq \<noteq> [] \<and> length rq = length (e # es) \<and> (\<forall>j \<in> set rq. j < n) \<longrightarrow>
               rscore c (rev (e # es)) rq + end_transitions c ! hd rq
                 \<le> rscore c (rev (e # es)) rp + end_transitions c ! hd rp)"
proof -
  let ?st = "fold (viterbi_step c) es (viterbi_init c e)"
  let ?R = "rev (e # es)"
  let ?fin = "map (\<lambda>k. fst (?st ! k) + end_transitions c ! k) [0..<n]"
  let ?k = "argmax_first ?fin"
  have i0: "vinv c n [e] (viterbi_init c e)" unfolding n by (rule vinv_init)
  have inv: "vinv c n ?R ?st"
    using vinv_fold [OF i0 n, of es] by simp
  have fne: "?fin \<noteq> []" using pos by auto
  from argmax_first_less [OF fne] have k: "?k < n" by simp
  have mx: "?fin ! j \<le> ?fin ! ?k" if "j < n" for j
    by (rule argmax_first_max) (use that in simp)
  have dec: "viterbi_decode c (e # es) = Inr (rev (snd (?st ! ?k)))"
    using pos by (simp add: viterbi_decode_def n Let_def)
  note sk = vinv_path [OF inv k]
  have fk: "?fin ! ?k = fst (?st ! ?k) + end_transitions c ! ?k" using k by simp
  have opt: "rscore c ?R rq + end_transitions c ! hd rq
        \<le> rscore c ?R (snd (?st ! ?k)) + end_transitions c ! hd (snd (?st ! ?k))"
    if rq: "rq \<noteq> []" "length rq = length (e # es)" "\<forall>j \<in> set rq. j < n" for rq
  proof -
    have h: "hd rq < n" using rq by (cases rq) auto
    have "rscore c ?R rq \<le> fst (?st ! hd rq)"
      by (rule vinv_opt [OF inv h rq(1) refl _ rq(3)]) (use rq(2) in simp)
    moreover have "?fin ! hd rq \<le> ?fin ! ?k" by (rule mx [OF h])
    moreover have "?fin ! hd rq = fst (?st ! hd rq) + end_transitions c ! hd rq" using h by simp
    ultimately show ?thesis unfolding sk(2) sk(5) [symmetric] using fk by linarith
  qed
  have l: "length (snd (?st ! ?k)) = length (e # es)" using sk(3) by simp
  show ?thesis
    unfolding dec using sk(1) l sk(4) opt by blast
qed

lemma allowed_path_snoc:
  "allowed_path S (p @ [k]) \<longleftrightarrow>
     allowed_path S p \<and> (p \<noteq> [] \<longrightarrow> (int (last p), int k) \<in> S)"
  by (induction S p rule: allowed_path.induct) auto

lemma rallowed_rev: "rallowed S rp \<longleftrightarrow> allowed_path S (rev rp)"
proof (induction S rp rule: rallowed.induct)
  case (1 S k k' p)
  have "allowed_path S (rev (k' # p) @ [k]) \<longleftrightarrow>
        allowed_path S (rev (k' # p)) \<and> (int k', int k) \<in> S"
    unfolding allowed_path_snoc by simp
  with 1 show ?case by auto
qed simp_all

lemma masked_trans:
  assumes "masked_scores n S B c" "i < n" "k < n"
  shows "(int i, int k) \<in> S \<Longrightarrow> \<bar>transitions c ! i ! k\<bar> \<le> B"
    and "(int i, int k) \<notin> S \<Longrightarrow> transitions c ! i ! k = sentinel"
  using assms unfolding masked_scores_def by (metis (full_types))+

lemma masked_start:
  assumes "masked_scores n S B c" "k < n"
  shows "\<bar>start_transitions c ! k\<bar> \<le> B" "\<bar>end_transitions c ! k\<bar> \<le> B"
  using assms unfolding masked_scores_def by blast+

lemma masked_trans_le:
  assumes m: "masked_scores n S B c" and "i < n" "k < n" and B: "0 \<le> B"
  shows "transitions c ! i ! k \<le> B"
proof (cases "(int i, int k) \<in> S")
  case True
  from masked_trans(1) [OF m assms(2,3) True] show ?thesis by simp
next
  case False
  from masked_trans(2) [OF m assms(2,3) False] B show ?thesis by (simp add: sentinel_def)
qed

lemma emission_bound:
  assumes "bounded_emissions n B es" "e \<in> set es" "k < n"
  shows "\<bar>e ! k\<bar> \<le> B"
  using assms unfolding bounded_emissions_def by blast

lemma rscore_bounds:
  assumes m: "masked_scores n S B c" and B: "0 \<le> B"
  shows "R \<noteq> [] \<Longrightarrow> bounded_emissions n B R \<Longrightarrow> length rq = length R \<Longrightarrow>
         \<forall>j \<in> set rq. j < n \<Longrightarrow>
         rscore c R rq \<le> 2 * real (length R) * B \<and>
         (rallowed S rq \<longrightarrow> - (2 * real (length R) * B) \<le> rscore c R rq) \<and>
         (\<not> rallowed S rq \<longrightarrow> rscore c R rq \<le> sentinel + (2 * real (length R) - 1) * B)"
proof (induction R arbitrary: rq rule: list_nonempty_induct)
  case (single e)
  then obtain k where rq: "rq = [k]" by (cases rq) auto
  have k: "k < n" using single rq by simp
  have "\<bar>e ! k\<bar> \<le> B" using emission_bound [OF single(1) _ k] by simp
  moreover have "\<bar>start_transitions c ! k\<bar> \<le> B" by (rule masked_start(1) [OF m k])
  ultimately show ?case by (auto simp: rq abs_le_iff)
next
  case (cons e R)
  from cons.prems(2) obtain k rq' where rq: "rq = k # rq'" by (cases rq) auto
  with cons.prems(2) cons.hyps obtain k' p where rq': "rq' = k' # p"
    by (cases rq') auto
  obtain e' es' where R: "R = e' # es'" using cons.hyps by (cases R) auto
  have k: "k < n" and k': "k' < n" using cons.prems(3) rq rq' by simp_all
  have be: "bounded_emissions n B R" using cons.prems(1) by (simp add: bounded_emissions_def)
  have lr: "length rq' = length R" using cons.prems(2) rq by simp
  have vr: "\<forall>j \<in> set rq'. j < n" using cons.prems(3) rq by simp
  note ih = cons.IH [OF be lr vr]
  define L where "L = 2 * real (length R) * B"
  have ih1: "rscore c R rq' \<le> L"
    and ih2: "rallowed S rq' \<Longrightarrow> - L \<le> rscore c R rq'"
    and ih3: "\<not> rallowed S rq' \<Longrightarrow> rscore c R rq' \<le> sentinel + L - B"
    using ih by (simp_all add: L_def algebra_simps)
  have "\<bar>e ! k\<bar> \<le> B" by (rule emission_bound [OF cons.prems(1) _ k]) simp
  then have ek: "- B \<le> e ! k" "e ! k \<le> B" by linarith+
  have sc: "rscore c (e # R) rq = rscore c R rq' + transitions c ! k' ! k + e ! k"
    by (simp add: rq rq' R)
  have ra: "rallowed S rq \<longleftrightarrow> (int k', int k) \<in> S \<and> rallowed S rq'"
    by (simp add: rq rq')
  have tle: "transitions c ! k' ! k \<le> B" by (rule masked_trans_le [OF m k' k B])
  have len: "2 * real (length (e # R)) * B = L + 2 * B"
    "(2 * real (length (e # R)) - 1) * B = L + B"
    by (simp_all add: L_def algebra_simps)
  have 1: "rscore c (e # R) rq \<le> 2 * real (length (e # R)) * B"
    unfolding sc len using ih1 tle ek by linarith
  have 2: "- (2 * real (length (e # R)) * B) \<le> rscore c (e # R) rq" if "rallowed S rq"
  proof -
    from that ra have a: "(int k', int k) \<in> S" "rallowed S rq'" by simp_all
    have "\<bar>transitions c ! k' ! k\<bar> \<le> B" by (rule masked_trans(1) [OF m k' k a(1)])
    then show ?thesis unfolding sc len using ih2 [OF a(2)] ek by linarith
  qed
  have 3: "rscore c (e # R) rq \<le> sentinel + (2 * real (length (e # R)) - 1) * B"
    if "\<not> rallowed S rq"
  proof (cases "(int k', int k) \<in> S")
    case True
    with that ra have "\<not> rallowed S rq'" by simp
    from ih3 [OF this] show ?thesis unfolding sc len using tle ek by linarith
  next
    case False
    have "transitions c ! k' ! k = sentinel" by (rule masked_trans(2) [OF m k' k False])
    then show ?thesis unfolding sc len using ih1 ek by linarith
  qed
  from 1 2 3 show ?case by blast
qed

lemma viterbi_allowed:
  assumes m: "masked_scores n S B c"
    and be: "bounded_emissions n B es" and ne: "es \<noteq> []"
    and q: "length q = length es" "\<forall>k \<in> set q. k < n" "allowed_path S q"
    and small: "(4 * real (length es) + 1) * B < 100000000"
  shows "\<exists>p. viterbi_decode c es = Inr p \<and> length p = length es \<and>
           (\<forall>k \<in> set p. k < n) \<and> allowed_path S p"
proof -
  obtain e es' where es: "es = e # es'" using ne by (cases es) auto
  have qne: "q \<noteq> []" using q(1) ne by auto
  then have "hd q \<in> set q" by simp
  with q(2) have pos: "0 < n" by fastforce
  have n: "n = length (start_transitions c)" using m by (simp add: masked_scores_def)
  from masked_start(1) [OF m pos] have B: "0 \<le> B" by linarith
  from viterbi_optimal [OF n pos, of e es']
  obtain rp where rp: "viterbi_decode c es = Inr (rev rp)" "rp \<noteq> []"
      "length rp = length es" "\<forall>j \<in> set rp. j < n"
    and opt: "\<And>rq. rq \<noteq> [] \<Longrightarrow> length rq = length es \<Longrightarrow> \<forall>j \<in> set rq. j < n \<Longrightarrow>
        rscore c (rev es) rq + end_transitions c ! hd rq
          \<le> rscore c (rev es) rp + end_transitions c ! hd rp"
    unfolding es by blast
  let ?R = "rev es"
  have Rne: "?R \<noteq> []" using ne by simp
  have bR: "bounded_emissions n B ?R" using be by (simp add: bounded_emissions_def)
  let ?rq = "rev q"
  have rq: "?rq \<noteq> []" "length ?rq = length es" "\<forall>j \<in> set ?rq. j < n"
    using qne q by simp_all
  have raq: "rallowed S ?rq" using q(3) by (simp add: rallowed_rev)
  have hq: "hd ?rq < n" using rq(1,3) by (metis hd_in_set)
  have hp: "hd rp < n" using rp(2,4) by (metis hd_in_set)
  have lq: "length ?rq = length ?R" using q(1) by simp
  have lp: "length rp = length ?R" using rp(3) by simp
  from rscore_bounds [OF m B Rne bR lq rq(3)] raq
  have low: "- (2 * real (length es) * B) \<le> rscore c ?R ?rq" by simp
  have "rallowed S rp"
  proof (rule ccontr)
    assume "\<not> rallowed S rp"
    with rscore_bounds [OF m B Rne bR lp rp(4)]
    have up: "rscore c ?R rp \<le> sentinel + (2 * real (length es) - 1) * B" by simp
    have e1: "- B \<le> end_transitions c ! hd ?rq" using masked_start(2) [OF m hq] by linarith
    have e2: "end_transitions c ! hd rp \<le> B" using masked_start(2) [OF m hp] by linarith
    from opt [OF rq] low up e1 e2
    have "- (2 * real (length es) * B) - B \<le> sentinel + (2 * real (length es) - 1) * B + B"
      by linarith
    then have "100000000 \<le> (4 * real (length es) + 1) * B"
      by (simp add: sentinel_def algebra_simps)
    with small show False by linarith
  qed
  then have "allowed_path S (rev rp)" by (simp add: rallowed_rev)
  with rp show ?thesis by auto
qed

lemma collect_all:
  "(\<forall>x \<in> set xs. \<exists>v. x = Inr v \<and> P v) \<Longrightarrow>
   \<exists>vs. collect xs = Inr vs \<and> length vs = length xs \<and> (\<forall>v \<in> set vs. P v)"
proof (induction xs)
  case Nil
  then show ?case by simp
next
  case (Cons x xs)
  then obtain v where v: "x = Inr v" "P v" by auto
  from Cons obtain vs where vs: "collect xs = Inr vs" "length vs = length xs" "\<forall>v \<in> set vs. P v"
    by auto
  show ?case using v vs by simp
qed

lemma allowed_path_take: "allowed_path S q \<Longrightarrow> allowed_path S (take L q)"
proof (induction S q arbitrary: L rule: allowed_path.induct)
  case (1 S i k p)
  show ?case
  proof (cases L)
    case 0
    then show ?thesis by simp
  next
    case (Suc L')
    show ?thesis
    proof (cases L')
      case 0
      then show ?thesis using Suc by simp
    next
      case (Suc L'')
      from "1.prems" have a: "(int i, int k) \<in> S" "allowed_path S (k # p)" by simp_all
      from "1.IH" [OF a(2), of "Suc L''"] have "allowed_path S (k # take L'' p)" by simp
      with a(1) show ?thesis using \<open>L = Suc L'\<close> Suc by simp
    qed
  qed
qed (simp_all add: take_Cons')

lemma decode_allowed:
  assumes m: "masked_scores n S B c"
    and ne: "emissions \<noteq> []"
    and shape: "\<forall>m \<in> set emissions. length m = batch \<and>
                  (\<forall>e \<in> set m. length e = n \<and> (\<forall>x \<in> set e. \<bar>x\<bar> \<le> B))"
    and active: "\<forall>j < batch. 0 < sum_list (map (\<lambda>r. r ! j) msk)"
    and q: "length q = length emissions" "\<forall>k \<in> set q. k < n" "allowed_path S q"
    and small: "(4 * real (length emissions) + 1) * B < 100000000"
  shows "\<exists>ps. decode c emissions msk = Inr ps \<and> length ps = batch \<and>
           (\<forall>p \<in> set ps. (\<forall>k \<in> set p. k < n) \<and> allowed_path S p)"
proof -
  obtain m0 ms where em: "emissions = m0 # ms" using ne by (cases emissions) auto
  have b: "(case emissions of [] \<Rightarrow> 0 | m # _ \<Rightarrow> length m) = batch"
    using shape by (simp add: em)
  have pos: "0 < n" using q ne by (cases q) auto
  from masked_start(1) [OF m pos] have B: "0 \<le> B" by linarith
  have one: "\<exists>p. viterbi_decode c
        (map (\<lambda>m. m ! j) (take (sum_list (map (\<lambda>r. r ! j) msk)) emissions)) = Inr p \<and>
        (\<forall>k \<in> set p. k < n) \<and> allowed_path S p" if j: "j < batch" for j
  proof -
    define L where "L = sum_list (map (\<lambda>r. r ! j) msk)"
    let ?es = "map (\<lambda>m. m ! j) (take L emissions)"
    have Lpos: "0 < L" using active j by (simp add: L_def)
    have en: "?es \<noteq> []" using Lpos ne by simp
    have "length e = n \<and> (\<forall>k<n. \<bar>e ! k\<bar> \<le> B)" if "e \<in> set ?es" for e
    proof -
      from that obtain m where mm: "m \<in> set (take L emissions)" "e = m ! j" by auto
      then have "m \<in> set emissions" by (meson in_set_takeD)
      with shape have "length m = batch" "\<forall>e \<in> set m. length e = n \<and> (\<forall>x \<in> set e. \<bar>x\<bar> \<le> B)"
        by auto
      moreover from this j have "m ! j \<in> set m" by simp
      ultimately show ?thesis using mm(2) by auto
    qed
    then have be: "bounded_emissions n B ?es" unfolding bounded_emissions_def by blast
    let ?q = "take (length ?es) q"
    have le: "length ?es \<le> length emissions" by simp
    have q1: "length ?q = length ?es" using q(1) le by simp
    have q2: "\<forall>k \<in> set ?q. k < n" using q(2) by (meson in_set_takeD)
    have q3: "allowed_path S ?q" by (rule allowed_path_take [OF q(3)])
    have "(4 * real (length ?es) + 1) * B \<le> (4 * real (length emissions) + 1) * B"
      using le B by (intro mult_right_mono) simp_all
    with small have sm: "(4 * real (length ?es) + 1) * B < 100000000" by linarith
    from viterbi_allowed [OF m be en q1 q2 q3 sm] show ?thesis unfolding L_def by blast
  qed
  have "\<forall>x \<in> set (map (\<lambda>j. viterbi_decode c
            (map (\<lambda>m. m ! j) (take (sum_list (map (\<lambda>r. r ! j) msk)) emissions))) [0..<batch]).
          \<exists>v. x = Inr v \<and> ((\<forall>k \<in> set v. k < n) \<and> allowed_path S v)"
    using one by auto
  from collect_all [OF this] show ?thesis
    unfolding decode_def b by simp
qed

lemma init_masked_scores:
  assumes ws: "well_shaped (num_tags_of num_labels use_hmm_model) crf0"
    and bd: "bounded_crf B crf0"
    and init: "init_crf num_labels use_hmm_model S crf0 = Inr c"
  shows "masked_scores (num_tags_of num_labels use_hmm_model) S B c"
proof -
  let ?n = "num_tags_of num_labels use_hmm_model"
  from init init_crf_result [OF ws, of S]
  have c: "start_transitions c = start_transitions crf0"
    "end_transitions c = end_transitions crf0"
    "transitions c = map (\<lambda>(r, mr). fill_row r mr sentinel)
        (zip (transitions crf0) (crf_transitions_mask S ?n))"
    by auto
  have len: "length (start_transitions crf0) = ?n" "length (end_transitions crf0) = ?n"
    using ws by (simp_all add: well_shaped_def)
  have sh: "shp ?n (transitions crf0)" by (rule well_shaped_shp [OF ws])
  have st: "\<bar>start_transitions crf0 ! k\<bar> \<le> B" "\<bar>end_transitions crf0 ! k\<bar> \<le> B"
    if "k < ?n" for k
    using bd that len unfolding bounded_crf_def by (metis nth_mem)+
  have tr: "\<bar>transitions crf0 ! i ! k\<bar> \<le> B" if "i < ?n" "k < ?n" for i k
  proof -
    have "transitions crf0 ! i \<in> set (transitions crf0)" using sh that by (simp add: shp_def)
    moreover have "transitions crf0 ! i ! k \<in> set (transitions crf0 ! i)"
      using sh that by (simp add: shp_def)
    ultimately show ?thesis using bd unfolding bounded_crf_def by blast
  qed
  have ent: "transitions c ! i ! k =
      (if (int i, int k) \<in> S then transitions crf0 ! i ! k else sentinel)"
    if "i < ?n" "k < ?n" for i k
    unfolding c(3) using fill_matrix_nth [OF sh mask_shape that] mask_entry [OF that]
    by simp
  show ?thesis
    unfolding masked_scores_def c(1,2) using len st tr ent by simp
qed

text \<open>
  C2 says that the decoded path never contains a forbidden transition, for every
  emission tensor and mask.  The sentinel is a finite score, and nothing checks that an
  allowed path exists.  With two tags of which only the transition from 0 to 1 is
  allowed, no path of three tags is allowed, and the decoder returns 0, 1, 0: tag 1
  is followed by tag 0.
\<close>

theorem decode_counterexample:
  "init_crf 2 False {(0, 1)}
     \<lparr>start_transitions = [0, 0], end_transitions = [0, 0],
      transitions = [[0, 0], [0, 0]]\<rparr> =
   Inr \<lparr>start_transitions = [0, 0], end_transitions = [0, 0],
        transitions = [[- 100000000, 0], [- 100000000, - 100000000]]\<rparr> \<and>
   decode \<lparr>start_transitions = [0, 0], end_transitions = [0, 0],
        transitions = [[- 100000000, 0], [- 100000000, - 100000000]]\<rparr>
     [[[0, 0]], [[0, 0]], [[0, 0]]] [[1], [1], [1]] = Inr [[0, 1, 0]] \<and>
   \<not> allowed_path {(0, 1)} [0, 1, 0]"
  by code_simp

text \<open>An allowed path may exist and still lose against a forbidden one, when emission
  scores are of the magnitude of the sentinel: here only the transition from 1 to 0 is
  forbidden, and the decoder returns 1, 0.\<close>

lemma decode_large_emissions:
  "decode \<lparr>start_transitions = [0, 0], end_transitions = [0, 0],
        transitions = [[0, 0], [- 100000000, 0]]\<rparr>
     [[[0, 300000000]], [[300000000, 0]]] [[1], [1]] = Inr [[1, 0]]"
  by code_simp

text \<open>
  C2, amended: let the CRF be the one the constructor builds from scores bounded by B in
  absolute value, let all emission scores be bounded by B, let every sequence be active
  at one timestep at least, let there be an allowed path as long as the emission
  tensor, and let (4 T + 1) B be below 100000000, where T is the number of timesteps.
  Then \<open>decode\<close> returns one path per sequence, and no returned path contains a tag
  followed by a tag to which the transition is not allowed.
\<close>

theorem decode_avoids_forbidden:
  assumes "well_shaped (num_tags_of num_labels use_hmm_model) crf0"
    and "bounded_crf B crf0"
    and "init_crf num_labels use_hmm_model S crf0 = Inr c"
    and "emissions \<noteq> []"
    and "\<forall>m \<in> set emissions. length m = batch \<and>
           (\<forall>e \<in> set m. length e = num_tags_of num_labels use_hmm_model \<and>
              (\<forall>x \<in> set e. \<bar>x\<bar> \<le> B))"
    and "\<forall>j < batch. 0 < sum_list (map (\<lambda>r. r ! j) msk)"
    and "length q = length emissions"
    and "\<forall>k \<in> set q. k < num_tags_of num_labels use_hmm_model"
    and "allowed_path S q"
    and "(4 * real (length emissions) + 1) * B < 100000000"
  shows "\<exists>ps. decode c emissions msk = Inr ps \<and> length ps = batch \<and>
           (\<forall>p \<in> set ps. allowed_path S p)"
proof -
  have m: "masked_scores (num_tags_of num_labels use_hmm_model) S B c"
    by (rule init_masked_scores [OF assms(1-3)])
  from decode_allowed [OF m assms(4-10)] show ?thesis by blast
qed

theorem decode_avoids_forbidden_witness:
  "well_shaped (num_tags_of 2 False)
     \<lparr>start_transitions = [1/10, -1/10], end_transitions = [1/20, 0],
      transitions = [[1/100, 1/50], [3/100, 1/25]]\<rparr> \<and>
   bounded_crf 1
     \<lparr>start_transitions = [1/10, -1/10], end_transitions = [1/20, 0],
      transitions = [[1/100, 1/50], [3/100, 1/25]]\<rparr> \<and>
   init_crf 2 False {(0, 1), (1, 0)}
     \<lparr>start_transitions = [1/10, -1/10], end_transitions = [1/20, 0],
      transitions = [[1/100, 1/50], [3/100, 1/25]]\<rparr> =
   Inr \<lparr>start_transitions = [1/10, -1/10], end_transitions = [1/20, 0],
        transitions = [[- 100000000, 1/50], [3/100, - 100000000]]\<rparr> \<and>
   [[[1, 0 :: real]], [[1, 0]], [[0, 1]]] \<noteq> [] \<and>
   list_all (\<lambda>m. length m = 1 \<and>
      list_all (\<lambda>e. length e = num_tags_of 2 False \<and> list_all (\<lambda>x. \<bar>x\<bar> \<le> 1) e) m)
     [[[1, 0 :: real]], [[1, 0]], [[0, 1]]] \<and>
   0 < sum_list (map (\<lambda>r. r ! 0) [[1], [1], [1 :: nat]]) \<and>
   length [0, 1, 0 :: nat] = length [[[1, 0 :: real]], [[1, 0]], [[0, 1]]] \<and>
   list_all (\<lambda>k. k < num_tags_of 2 False) [0, 1, 0 :: nat] \<and>
   allowed_path {(0, 1), (1, 0)} [0, 1, 0] \<and>
   (4 * real (length [[[1, 0 :: real]], [[1, 0]], [[0, 1]]]) + 1) * 1 < (100000000 :: real) \<and>
   (\<exists>ps. decode \<lparr>start_transitions = [1/10, -1/10], end_transitions = [1/20, 0],
               transitions = [[- 100000000, 1/50], [3/100, - 100000000]]\<rparr>
            [[[1, 0]], [[1, 0]], [[0, 1]]] [[1], [1], [1]] = Inr ps \<and> length ps = 1 \<and>
         (\<forall>p \<in> set ps. allowed_path {(0, 1), (1, 0)} p))"
proof -
  let ?crf0 = "\<lparr>start_transitions = [1/10, -1/10], end_transitions = [1/20, 0],
      transitions = [[1/100, 1/50], [3/100, 1/25 :: real]]\<rparr>"
  let ?c = "\<lparr>start_transitions = [1/10, -1/10], end_transitions = [1/20, 0],
      transitions = [[- 100000000, 1/50], [3/100, - 100000000 :: real]]\<rparr>"
  let ?em = "[[[1, 0 :: real]], [[1, 0]], [[0, 1]]]"
  have 1: "well_shaped (num_tags_of 2 False) ?crf0"
    by (simp add: well_shaped_def num_tags_of_def)
  have 2: "bounded_crf 1 ?crf0" by (simp add: bounded_crf_def)
  have 3: "init_crf 2 False {(0, 1), (1, 0)} ?crf0 = Inr ?c"
    by (simp add: init_crf_def num_tags_of_def crf_transitions_mask_def ones_def mask_step_def
      generate_masked_crf_transitions_def masked_fill2_def fill_row_def
      initialize_crf_parameters_def numeral_2_eq_2 sentinel_def)
  have 4: "?em \<noteq> []" by simp
  have 5: "\<forall>m \<in> set ?em. length m = 1 \<and>
      (\<forall>e \<in> set m. length e = num_tags_of 2 False \<and> (\<forall>x \<in> set e. \<bar>x\<bar> \<le> 1))"
    by (simp add: num_tags_of_def)
  have 6: "\<forall>j < 1. 0 < sum_list (map (\<lambda>r. r ! j) [[1], [1], [1 :: nat]])" by simp
  have 7: "length [0, 1, 0 :: nat] = length ?em" by simp
  have 8: "\<forall>k \<in> set [0, 1, 0 :: nat]. k < num_tags_of 2 False"
    by (simp add: num_tags_of_def)
  have 9: "allowed_path {(0, 1), (1, 0)} [0, 1, 0]" by simp
  have 10: "(4 * real (length ?em) + 1) * 1 < (100000000 :: real)" by simp
  from decode_avoids_forbidden [OF 1 2 3 4 5 6 7 8 9 10]
  have "\<exists>ps. decode ?c ?em [[1], [1], [1]] = Inr ps \<and> length ps = 1 \<and>
         (\<forall>p \<in> set ps. allowed_path {(0, 1), (1, 0)} p)" .
  with 1 2 3 show ?thesis by (simp add: num_tags_of_def)
qed

section \<open>Properties of the forward pass\<close>

text \<open>
  C9: when \<open>forward\<close> is called with forced types, the second component of the result is
  exactly the forced types, and the first component (the decoded label paths), the
  exceptions and the cache are those of the call without forced types; without forced
  types the second component is the predicted types.
\<close>

theorem forced_types_override:
  "fst (forward self g x (Some forced)) =
     (case fst (forward self g x None) of
        Inl e \<Rightarrow> Inl e
      | Inr (labels, types) \<Rightarrow> Inr (labels, forced)) \<and>
   snd (forward self g x (Some forced)) = snd (forward self g x None) \<and>
   (\<forall>labels types. fst (forward self g x None) = Inr (labels, types) \<longrightarrow>
      (\<exists>input_sequences.
         fst (embed (self_embedding self) (blosum_file self) g x) = Inr input_sequences \<and>
         predict_types self input_sequences labels = Inr types))"
  by (auto simp: forward_def Let_def split: prod.splits sum.splits)

theorem forced_types_override_witness:
  "fst (forward
     \<lparr>self_embedding = ''ONEHOT'', self_use_marg_prob = False, self_use_hmm_model = False,
      self_num_labels = 2,
      self_crfModel = \<lparr>start_transitions = [0, 0], end_transitions = [0, 0],
         transitions = [[- 100000000, 0], [0, - 100000000]]\<rparr>,
      self_type_classier_tm = None, self_type_classier_sp = None,
      blosum_file = [],
      packed_scores = (\<lambda>xs. Inr ([[1, 0], [0, 1], [1, 0], [1, 0], [0, 1]], [2, 2, 1])),
      marginal_softmax = (\<lambda>c e m. Inl RuntimeError),
      remapped_labels_to_orginal_labels = (\<lambda>l. l),
      get_predicted_type_from_labels = (\<lambda>l. int (length l))\<rparr>
     None [''ARN'', ''AR''] (Some [7, 8])) = Inr ([[1, 0, 1], [1, 0]], [7, 8]) \<and>
   fst (forward
     \<lparr>self_embedding = ''ONEHOT'', self_use_marg_prob = False, self_use_hmm_model = False,
      self_num_labels = 2,
      self_crfModel = \<lparr>start_transitions = [0, 0], end_transitions = [0, 0],
         transitions = [[- 100000000, 0], [0, - 100000000]]\<rparr>,
      self_type_classier_tm = None, self_type_classier_sp = None,
      blosum_file = [],
      packed_scores = (\<lambda>xs. Inr ([[1, 0], [0, 1], [1, 0], [1, 0], [0, 1]], [2, 2, 1])),
      marginal_softmax = (\<lambda>c e m. Inl RuntimeError),
      remapped_labels_to_orginal_labels = (\<lambda>l. l),
      get_predicted_type_from_labels = (\<lambda>l. int (length l))\<rparr>
     None [''ARN'', ''AR''] None) = Inr ([[1, 0, 1], [1, 0]], [3, 2])"
proof -
  let ?m = "\<lparr>self_embedding = ''ONEHOT'', self_use_marg_prob = False, self_use_hmm_model = False,
      self_num_labels = 2,
      self_crfModel = \<lparr>start_transitions = [0, 0], end_transitions = [0, 0],
         transitions = [[- 100000000, 0], [0, - 100000000]]\<rparr>,
      self_type_classier_tm = None, self_type_classier_sp = None,
      blosum_file = [],
      packed_scores = (\<lambda>xs. Inr ([[1, 0], [0, 1], [1, 0], [1, 0], [0, 1]], [2, 2, 1])),
      marginal_softmax = (\<lambda>c e m. Inl RuntimeError),
      remapped_labels_to_orginal_labels = (\<lambda>l. l),
      get_predicted_type_from_labels = (\<lambda>l. int (length l))\<rparr>"
  have n: "fst (forward ?m None [''ARN'', ''AR''] None) = Inr ([[1, 0, 1], [1, 0]], [3, 2])"
    by code_simp
  from forced_types_override [of ?m None "[''ARN'', ''AR'']" "[7, 8]"] n
  show ?thesis by simp
qed

section \<open>The scenario of two sequences of lengths 5 and 3\<close>

text \<open>
  For batch sizes [2,2,2,1,1] the padded emissions come with the sequence lengths
  [5, 3], and it is these lengths that \<open>forward\<close> passes to \<open>batch_sizes_to_mask\<close>: the mask
  then has one row per timestep and one column per sequence.
\<close>

lemma lengths_of_batch_sizes:
  "snd (pad_packed_sequence width data [2, 2, 2, 1, 1]) = [5, 3]"
  by (simp add: pad_packed_sequence_def numeral_2_eq_2)

lemma mask_of_padded_lengths:
  "batch_sizes_to_mask (snd (pad_packed_sequence width data [2, 2, 2, 1, 1])) =
     Inr [[1, 1], [1, 1], [1, 1], [1, 0], [1, 0]]"
  unfolding lengths_of_batch_sizes by (rule batch_sizes_to_mask_lengths)

text \<open>Padding keeps the shape of the augmented rows: every row of the padded emissions
  is a row of the packed scores or a row of zeros.\<close>

lemma unpack_rows:
  "m \<in> set (unpack batch width data batch_sizes) \<Longrightarrow> r \<in> set m \<Longrightarrow>
   r \<in> set data \<or> r = replicate width 0"
proof (induction batch width data batch_sizes rule: unpack.induct)
  case (1 batch width data)
  then show ?case by simp
next
  case (2 batch width data bs rest)
  from "2.prems" consider "r \<in> set (take bs data)" | "r = replicate width 0"
    | "m \<in> set (unpack batch width (drop bs data) rest)"
    by auto
  then show ?case
  proof cases
    case 1
    then show ?thesis by (meson in_set_takeD)
  next
    case 2
    then show ?thesis by simp
  next
    case 3
    from "2.IH" [OF this "2.prems"(2)] show ?thesis by (meson in_set_dropD)
  qed
qed

lemma padded_emissions_columns:
  assumes "packed_scores self input_sequences = Inr (scores, batch_sizes)"
    and "\<forall>r \<in> set scores. length r = self_num_labels self"
    and "self_use_hmm_model self"
    and "get_network_emissions self input_sequences = Inr (emissions, lengths)"
    and "m \<in> set emissions" and "r \<in> set m" and "j < 40"
  shows "length r = self_num_labels self + 80 \<and>
         r ! (self_num_labels self + j) = r ! 0 \<and>
         r ! (self_num_labels self + 40 + j) = r ! 1"
proof -
  let ?n = "self_num_labels self"
  from assms(1,3,4) have n2: "2 \<le> ?n"
    by (auto simp: get_network_emissions_def network_emissions_def hmm_emissions_def
        split: if_splits)
  let ?rows = "map (\<lambda>r. r @ replicate 40 (r ! 0) @ replicate 40 (r ! 1)) scores"
  from assms(1,3,4) n2 have em: "emissions = unpack (case batch_sizes of [] \<Rightarrow> 0 | b # _ \<Rightarrow> b)
      (?n + 80) ?rows batch_sizes"
    by (auto simp: get_network_emissions_def network_emissions_def hmm_emissions_def
        pad_packed_sequence_def num_tags_of_def Let_def)
  from unpack_rows [OF assms(5) [unfolded em] assms(6)]
  consider s where "s \<in> set scores" "r = s @ replicate 40 (s ! 0) @ replicate 40 (s ! 1)"
    | "r = replicate (?n + 80) 0"
    by auto
  then show ?thesis
  proof cases
    case 1
    with assms(2) have "length s = ?n" by simp
    then show ?thesis using 1 n2 assms(7) by (simp add: nth_append)
  next
    case 2
    then show ?thesis using n2 assms(7) by simp
  qed
qed

end
